theory Spec2Isabelle
  imports Complex_Main "HOL-Library.AList" "HOL-Library.Word"
begin

section \<open>Midi2Image: the MIDI-to-image core of \<^verbatim>\<open>midi_to_image.py\<close>\<close>

text \<open>
  The development embeds the functions of \<^verbatim>\<open>src/midi_to_image.py\<close>:
  \<^verbatim>\<open>color_for_note\<close>, \<^verbatim>\<open>parse_midi_to_spans\<close>, \<^verbatim>\<open>spans_to_color_strip\<close>,
  \<^verbatim>\<open>color_strip_to_rect_image\<close> and \<^verbatim>\<open>_write_png\<close>.

  Conventions of the embedding.
  \<^item> Python \<^verbatim>\<open>int\<close> is \<^typ>\<open>int\<close>. Python \<^verbatim>\<open>float\<close> is idealised as \<^typ>\<open>real\<close>:
    times, the brightness scale and the aspect ratio are computed in exact arithmetic,
    so rounding of IEEE doubles is outside the model.
  \<^item> Every \<^verbatim>\<open>raise\<close> is a value \<open>Inl e\<close> of \<open>py_error + 'a\<close>.
  \<^item> The module-global generator behind \<^verbatim>\<open>random.randint\<close> is explicit state: a function
    applied to it receives the generator and returns the advanced generator.
  \<^item> A list argument that the function mutates in place is returned in its final state
    next to the function's result.
  \<^item> The library \<^verbatim>\<open>mido\<close> is not part of the repository: a MIDI file is given by its
    \<^verbatim>\<open>ticks_per_beat\<close> and the message list that \<^verbatim>\<open>mido.merge_tracks\<close> yields.
\<close>

subsection \<open>Errors\<close>

datatype py_error =
    FileNotFoundError string
  | ValueError string
  | ZeroDivisionError
  | IndexError
  | StructError

subsection \<open>Note spans and colors\<close>

type_synonym pixel = "int \<times> int \<times> int"

text \<open>The dataclass \<^verbatim>\<open>NoteSpan\<close>; the fields \<^verbatim>\<open>note\<close> and \<^verbatim>\<open>end\<close> are renamed
  because both words are reserved.\<close>

record NoteSpan =
  note_number :: int
  channel :: int
  start :: real
  end_time :: real
  velocity :: int

text \<open>\<^verbatim>\<open>NOTE_NAMES\<close>, \<^verbatim>\<open>NATURAL_COLORS\<close> and \<^verbatim>\<open>SHARP_COLORS\<close>.\<close>

definition NOTE_NAMES :: "string list" where
  "NOTE_NAMES = [''C'', ''C#'', ''D'', ''D#'', ''E'', ''F'', ''F#'', ''G'', ''G#'', ''A'', ''A#'', ''B'']"

definition NATURAL_COLORS :: "(string \<times> pixel) list" where
  "NATURAL_COLORS =
    [(''C'', (255, 214, 10)), (''D'', (46, 204, 113)), (''E'', (201, 162, 39)),
     (''F'', (31, 58, 147)), (''G'', (93, 173, 226)), (''A'', (139, 0, 0)),
     (''B'', (44, 62, 80))]"

definition SHARP_COLORS :: "(string \<times> pixel) list" where
  "SHARP_COLORS =
    [(''C#'', (255, 0, 255)), (''D#'', (153, 50, 204)), (''F#'', (180, 255, 0)),
     (''G#'', (255, 87, 34)), (''A#'', (0, 255, 255))]"

text \<open>\<^verbatim>\<open>int(c * scale)\<close> truncates towards zero; \<^verbatim>\<open>min(255, ...)\<close> clamps.\<close>

definition py_int_of_float :: "real \<Rightarrow> int" where
  "py_int_of_float x = (if 0 \<le> x then \<lfloor>x\<rfloor> else \<lceil>x\<rceil>)"

definition scale_channel :: "real \<Rightarrow> int \<Rightarrow> int" where
  "scale_channel scale c = min 255 (py_int_of_float (real_of_int c * scale))"

definition color_for_note :: "int \<Rightarrow> int \<Rightarrow> pixel" where
  "color_for_note nn vel =
    (let base_name = NOTE_NAMES ! nat (nn mod 12);
         base = (case map_of SHARP_COLORS base_name of
                   Some c \<Rightarrow> c
                 | None \<Rightarrow> (case map_of NATURAL_COLORS base_name of
                              Some c \<Rightarrow> c
                            | None \<Rightarrow> (80, 80, 80)));
         scale = 0.4 + 0.6 * (real_of_int (max 0 (min 127 vel)) / 127)
     in (case base of (r, g, b) \<Rightarrow>
           (scale_channel scale r, scale_channel scale g, scale_channel scale b)))"

subsection \<open>MIDI messages and the span extractor\<close>

text \<open>A message of the merged stream: its delta time in ticks (\<^verbatim>\<open>msg.time\<close>) and its type
  with the attributes the extractor reads. \<open>Note_on c n v\<close> has channel \<open>c\<close>, note \<open>n\<close> and
  velocity \<open>v\<close>; every type other than note_on, note_off and set_tempo is \<open>Other_msg\<close>.\<close>

datatype msg_body =
    Note_on int int int
  | Note_off int int int
  | Set_tempo int
  | Other_msg

datatype message = Message (time: int) (body: msg_body)

record MidiFile =
  ticks_per_beat :: int
  merged_tracks :: "message list"

text \<open>Modelled from the spec: \<^verbatim>\<open>mido.tick2second\<close> belongs to the library mido, whose code
  is not under src/. The spec (4.1) gives
  \<^verbatim>\<open>seconds = ticks * (tempo_microseconds_per_beat / 1_000_000) / ticks_per_beat\<close>;
  the division by a zero \<^verbatim>\<open>ticks_per_beat\<close> raises, as Python's division does.\<close>

definition tick2second :: "int \<Rightarrow> int \<Rightarrow> int \<Rightarrow> py_error + real" where
  "tick2second tick tpb tempo =
    (if tpb = 0 then Inl ZeroDivisionError
     else Inr (real_of_int tick * (real_of_int tempo / 1000000) / real_of_int tpb))"

text \<open>The local variables of \<^verbatim>\<open>parse_midi_to_spans\<close>. The dict \<^verbatim>\<open>active\<close> is an association
  list in insertion order: assigning to a present key keeps its place, assigning to a new
  key appends, which is what \<^const>\<open>AList.update\<close> does.\<close>

record extractor =
  tempo :: int
  current_time :: real
  active :: "((int \<times> int) \<times> (real \<times> int)) list"
  spans :: "NoteSpan list"

definition init_extractor :: extractor where
  "init_extractor = \<lparr>tempo = 500000, current_time = 0, active = [], spans = []\<rparr>"

text \<open>The branch for note_off and for note_on with velocity 0 (source lines 92 to 104).\<close>

definition close_note :: "extractor \<Rightarrow> int \<Rightarrow> int \<Rightarrow> extractor" where
  "close_note st c n =
    (case map_of (active st) (c, n) of
       None \<Rightarrow> st
     | Some (start_time, vel) \<Rightarrow>
         st\<lparr>active := AList.delete (c, n) (active st),
            spans := spans st @
              [\<lparr>note_number = n, channel = c, start = start_time,
                end_time = current_time st, velocity = vel\<rparr>]\<rparr>)"

text \<open>One iteration of the loop over the merged messages (source lines 82 to 104).\<close>

definition process_msg :: "int \<Rightarrow> extractor \<Rightarrow> message \<Rightarrow> py_error + extractor" where
  "process_msg tpb st msg =
    (case tick2second (time msg) tpb (tempo st) of
       Inl e \<Rightarrow> Inl e
     | Inr delta_seconds \<Rightarrow>
         (let st1 = st\<lparr>current_time := current_time st + delta_seconds\<rparr>
          in Inr (case body msg of
                Set_tempo t \<Rightarrow> st1\<lparr>tempo := t\<rparr>
              | Note_on c n v \<Rightarrow>
                  if v > 0
                  then st1\<lparr>active := AList.update (c, n) (current_time st1, v) (active st1)\<rparr>
                  else if v = 0 then close_note st1 c n else st1
              | Note_off c n v \<Rightarrow> close_note st1 c n
              | Other_msg \<Rightarrow> st1)))"

fun process_msgs :: "int \<Rightarrow> extractor \<Rightarrow> message list \<Rightarrow> py_error + extractor" where
  "process_msgs tpb st [] = Inr st"
| "process_msgs tpb st (msg # msgs) =
    (case process_msg tpb st msg of
       Inl e \<Rightarrow> Inl e
     | Inr st' \<Rightarrow> process_msgs tpb st' msgs)"

text \<open>The loop that closes the hanging notes at file end (source lines 106 to 116).\<close>

definition close_hanging :: "extractor \<Rightarrow> NoteSpan list" where
  "close_hanging st =
    map (\<lambda>((c, n), (start_time, vel)).
          \<lparr>note_number = n, channel = c, start = start_time,
           end_time = current_time st, velocity = vel\<rparr>)
        (active st)"

text \<open>\<^verbatim>\<open>parse_midi_to_spans\<close>: the file system is a partial map from paths to MIDI files;
  a path outside its domain does not exist.\<close>

definition parse_midi_to_spans :: "(string \<rightharpoonup> MidiFile) \<Rightarrow> string \<Rightarrow> py_error + NoteSpan list" where
  "parse_midi_to_spans fs filepath =
    (case fs filepath of
       None \<Rightarrow> Inl (FileNotFoundError filepath)
     | Some mid \<Rightarrow>
         (case process_msgs (ticks_per_beat mid) init_extractor (merged_tracks mid) of
            Inl e \<Rightarrow> Inl e
          | Inr st \<Rightarrow> Inr (spans st @ close_hanging st)))"

subsection \<open>The global random generator\<close>

text \<open>The state of Python's module-global generator is the sequence of the numbers it
  will hand out: \<open>g k\<close> is the raw value behind the \<open>k\<close>-th coming call of
  \<^verbatim>\<open>random.randint(0, 255)\<close>, reduced to the range 0 to 255. A call returns the head and
  leaves the tail as the new state.\<close>

type_synonym rng = "nat \<Rightarrow> nat"

definition randint_0_255 :: "rng \<Rightarrow> int \<times> rng" where
  "randint_0_255 g = (int (g 0 mod 256), (\<lambda>k. g (Suc k)))"

text \<open>\<^verbatim>\<open>(random.randint(0, 255), random.randint(0, 255), random.randint(0, 255))\<close>,
  evaluated left to right.\<close>

definition random_pixel :: "rng \<Rightarrow> pixel \<times> rng" where
  "random_pixel g =
    (case randint_0_255 g of (r, g1) \<Rightarrow>
     case randint_0_255 g1 of (gr, g2) \<Rightarrow>
     case randint_0_255 g2 of (b, g3) \<Rightarrow> ((r, gr, b), g3))"

subsection \<open>The strip builder\<close>

text \<open>The body of \<^verbatim>\<open>for span in active\<close> (source lines 146 to 150).\<close>

definition add_color :: "NoteSpan \<Rightarrow> pixel \<Rightarrow> pixel" where
  "add_color sp acc =
    (case acc of (r, g, b) \<Rightarrow>
     case color_for_note (note_number sp) (velocity sp) of (cr, cg, cb) \<Rightarrow>
       (r + cr, g + cg, b + cb))"

text \<open>The loop \<^verbatim>\<open>for i in range(total_pixels)\<close> (source lines 135 to 152); the list
  \<^verbatim>\<open>strip\<close> and the generator are the loop's state.\<close>

fun strip_loop ::
  "NoteSpan list \<Rightarrow> real \<Rightarrow> pixel option \<Rightarrow> nat list \<Rightarrow> rng \<Rightarrow> pixel list \<Rightarrow> pixel list \<times> rng"
where
  "strip_loop sps step background [] g strip = (strip, g)"
| "strip_loop sps step background (i # is) g strip =
    (let t = real i * step;
         act = filter (\<lambda>sp. start sp \<le> t \<and> t < end_time sp) sps
     in if act = [] then
          (case background of
             None \<Rightarrow>
               (case random_pixel g of (p, g') \<Rightarrow>
                  strip_loop sps step background is g' (strip @ [p]))
           | Some c \<Rightarrow> strip_loop sps step background is g (strip @ [c]))
        else
          (case fold add_color act (0, 0, 0) of (r, gr, b) \<Rightarrow>
             (let count = int (length act)
              in strip_loop sps step background is g
                   (strip @ [(r div count, gr div count, b div count)]))))"

text \<open>\<^verbatim>\<open>spans_to_color_strip\<close>. \<^verbatim>\<open>background = None\<close> is \<open>None\<close>. The maximum over the
  generator \<^verbatim>\<open>span.end for span in spans\<close> starts from the first element;
  \<^verbatim>\<open>1.0 / pixels_per_second\<close> raises for 0.\<close>

definition spans_to_color_strip ::
  "rng \<Rightarrow> NoteSpan list \<Rightarrow> int \<Rightarrow> pixel option \<Rightarrow> py_error + (pixel list \<times> rng)"
where
  "spans_to_color_strip g sps pixels_per_second background =
    (case sps of
       [] \<Rightarrow> Inr ([], g)
     | s # rest \<Rightarrow>
         (let total_duration = fold max (map end_time rest) (end_time s);
              total_pixels = max 1 \<lceil>total_duration * real_of_int pixels_per_second\<rceil>
          in if pixels_per_second = 0 then Inl ZeroDivisionError
             else (let step = 1 / real_of_int pixels_per_second
                   in Inr (strip_loop sps step background [0..<nat total_pixels] g []))))"

subsection \<open>The rectangle packer\<close>

text \<open>\<^verbatim>\<open>for _ in range(needed): strip.append(random pixel)\<close> (source lines 179, 180).\<close>

fun noise_pad :: "nat \<Rightarrow> rng \<Rightarrow> pixel list \<Rightarrow> pixel list \<times> rng" where
  "noise_pad 0 g strip = (strip, g)"
| "noise_pad (Suc k) g strip =
    (case random_pixel g of (p, g') \<Rightarrow> noise_pad k g' (strip @ [p]))"

text \<open>\<^verbatim>\<open>color_strip_to_rect_image\<close>, on the path without Pillow. The function appends to its
  argument \<^verbatim>\<open>strip\<close>, a list object shared with the caller, so the result has three parts:
  the returned triple \<^verbatim>\<open>(width, height, strip[: width * height])\<close>, the content of the
  caller's list when the function returns, and the generator. With Pillow the same
  width, height and slice are handed to \<^verbatim>\<open>Image.new\<close> and \<^verbatim>\<open>putdata\<close>.\<close>

definition color_strip_to_rect_image ::
  "rng \<Rightarrow> pixel list \<Rightarrow> int \<times> int \<Rightarrow> bool
     \<Rightarrow> py_error + ((int \<times> int \<times> pixel list) \<times> pixel list \<times> rng)"
where
  "color_strip_to_rect_image g strip ratio noise =
    (if strip = [] then Inl (ValueError ''Color strip is empty'')
     else (case ratio of (ratio_w, ratio_h) \<Rightarrow>
       if ratio_w \<le> 0 \<or> ratio_h \<le> 0 then Inl (ValueError ''Aspect ratio must be positive'')
       else
         (let area = int (length strip);
              target_ratio = real_of_int ratio_w / real_of_int ratio_h;
              height = \<lceil>sqrt (real_of_int area / target_ratio)\<rceil>;
              width = \<lceil>real_of_int height * target_ratio\<rceil>;
              needed = width * height - area;
              padded = (if needed > 0
                        then (if noise then noise_pad (nat needed) g strip
                              else (strip @ replicate (nat needed) (0, 0, 0), g))
                        else (strip, g))
          in (case padded of (strip', g') \<Rightarrow>
                Inr ((width, height, take (nat (width * height)) strip'), strip', g')))))"

subsection \<open>The built-in PNG writer\<close>

type_synonym byte = "8 word"

text \<open>The two functions of \<^verbatim>\<open>zlib\<close> that the writer calls are parameters: the library is
  not part of the repository. \<open>crc32 z bs\<close> is \<^verbatim>\<open>zlib.crc32(bs)\<close>, \<open>compress z bs l\<close> is
  \<^verbatim>\<open>zlib.compress(bs, level=l)\<close>.\<close>

record zlib =
  crc32 :: "byte list \<Rightarrow> int"
  compress :: "byte list \<Rightarrow> nat \<Rightarrow> byte list"

text \<open>An element appended to a \<^verbatim>\<open>bytearray\<close> must lie in \<^verbatim>\<open>range(256)\<close>.\<close>

definition byte_of_int :: "int \<Rightarrow> py_error + byte" where
  "byte_of_int v =
    (if 0 \<le> v \<and> v < 256 then Inr (word_of_int v)
     else Inl (ValueError ''byte must be in range(0, 256)''))"

text \<open>\<^verbatim>\<open>struct.pack("!I", n)\<close>: four bytes, most significant first; a value outside
  32 bits is a \<^verbatim>\<open>struct.error\<close>.\<close>

definition pack_u32 :: "int \<Rightarrow> py_error + byte list" where
  "pack_u32 n =
    (if 0 \<le> n \<and> n < 2 ^ 32
     then Inr [word_of_int (n div 2 ^ 24), word_of_int (n div 2 ^ 16),
               word_of_int (n div 2 ^ 8), word_of_int n]
     else Inl StructError)"

text \<open>\<^verbatim>\<open>raw.extend((r, g, b))\<close>.\<close>

definition pixel_bytes :: "pixel \<Rightarrow> py_error + byte list" where
  "pixel_bytes p =
    (case p of (r, g, b) \<Rightarrow>
     case byte_of_int r of Inl e \<Rightarrow> Inl e | Inr br \<Rightarrow>
     case byte_of_int g of Inl e \<Rightarrow> Inl e | Inr bg \<Rightarrow>
     case byte_of_int b of Inl e \<Rightarrow> Inl e | Inr bb \<Rightarrow> Inr [br, bg, bb])"

text \<open>The inner loop \<^verbatim>\<open>for x in range(width)\<close>; \<^verbatim>\<open>data[row_start + x]\<close> past the end of
  the list is an \<^verbatim>\<open>IndexError\<close>.\<close>

fun row_loop :: "pixel list \<Rightarrow> nat \<Rightarrow> nat list \<Rightarrow> byte list \<Rightarrow> py_error + byte list" where
  "row_loop data row_start [] raw = Inr raw"
| "row_loop data row_start (x # xs) raw =
    (if row_start + x < length data
     then (case pixel_bytes (data ! (row_start + x)) of
             Inl e \<Rightarrow> Inl e
           | Inr bs \<Rightarrow> row_loop data row_start xs (raw @ bs))
     else Inl IndexError)"

text \<open>The outer loop \<^verbatim>\<open>for y in range(height)\<close>: the filter byte 0, then the row.\<close>

fun raw_loop :: "pixel list \<Rightarrow> nat \<Rightarrow> nat list \<Rightarrow> byte list \<Rightarrow> py_error + byte list" where
  "raw_loop data width [] raw = Inr raw"
| "raw_loop data width (y # ys) raw =
    (case row_loop data (y * width) [0..<width] (raw @ [0]) of
       Inl e \<Rightarrow> Inl e
     | Inr raw' \<Rightarrow> raw_loop data width ys raw')"

text \<open>The local function \<^verbatim>\<open>chunk\<close>; \<^verbatim>\<open>& 0xFFFFFFFF\<close> keeps the low 32 bits.\<close>

definition chunk :: "zlib \<Rightarrow> byte list \<Rightarrow> byte list \<Rightarrow> py_error + byte list" where
  "chunk z tag payload =
    (let crc = take_bit 32 (crc32 z (tag @ payload))
     in case pack_u32 (int (length payload)) of
          Inl e \<Rightarrow> Inl e
        | Inr len_bytes \<Rightarrow>
            (case pack_u32 crc of
               Inl e \<Rightarrow> Inl e
             | Inr crc_bytes \<Rightarrow> Inr (len_bytes @ tag @ payload @ crc_bytes)))"

definition PNG_SIGNATURE :: "byte list" where
  "PNG_SIGNATURE = [0x89, 0x50, 0x4E, 0x47, 0x0D, 0x0A, 0x1A, 0x0A]"

definition IHDR :: "byte list" where "IHDR = [0x49, 0x48, 0x44, 0x52]"
definition IDAT :: "byte list" where "IDAT = [0x49, 0x44, 0x41, 0x54]"
definition IEND :: "byte list" where "IEND = [0x49, 0x45, 0x4E, 0x44]"

text \<open>\<^verbatim>\<open>struct.pack("!IIBBBBB", width, height, 8, 2, 0, 0, 0)\<close>.\<close>

definition pack_header :: "int \<Rightarrow> int \<Rightarrow> py_error + byte list" where
  "pack_header width height =
    (case pack_u32 width of
       Inl e \<Rightarrow> Inl e
     | Inr wb \<Rightarrow>
         (case pack_u32 height of
            Inl e \<Rightarrow> Inl e
          | Inr hb \<Rightarrow> Inr (wb @ hb @ [8, 2, 0, 0, 0])))"

text \<open>\<^verbatim>\<open>_write_png\<close>: the result is the byte string written to \<^verbatim>\<open>path\<close>.\<close>

definition write_png :: "zlib \<Rightarrow> int \<Rightarrow> int \<Rightarrow> pixel list \<Rightarrow> py_error + byte list" where
  "write_png z width height data =
    (case raw_loop data (nat width) [0..<nat height] [] of
       Inl e \<Rightarrow> Inl e
     | Inr raw \<Rightarrow>
    (case pack_header width height of
       Inl e \<Rightarrow> Inl e
     | Inr header \<Rightarrow>
    (case chunk z IHDR header of
       Inl e \<Rightarrow> Inl e
     | Inr c1 \<Rightarrow>
    (case chunk z IDAT (compress z raw 9) of
       Inl e \<Rightarrow> Inl e
     | Inr c2 \<Rightarrow>
    (case chunk z IEND [] of
       Inl e \<Rightarrow> Inl e
     | Inr c3 \<Rightarrow> Inr (PNG_SIGNATURE @ c1 @ c2 @ c3))))))"

subsection \<open>The layout of the image file in the words of the specification\<close>

text \<open>These definitions follow section 4.6 of the specification, not the code: a scanline
  is the filter-type byte 0 followed by three bytes per pixel of its row, and a chunk is
  framed as length, tag, payload and CRC-32 over tag and payload, the two numbers as four
  bytes, most significant first.\<close>

definition spec_be32 :: "int \<Rightarrow> byte list" where
  "spec_be32 n = map (\<lambda>k. word_of_int (n div 256 ^ k mod 256)) [3, 2, 1, 0]"

definition spec_scanline :: "nat \<Rightarrow> pixel list \<Rightarrow> nat \<Rightarrow> byte list" where
  "spec_scanline width data y =
    0 # concat (map (\<lambda>(r, g, b). [word_of_int r, word_of_int g, word_of_int b])
                (take width (drop (y * width) data)))"

definition spec_chunk :: "zlib \<Rightarrow> byte list \<Rightarrow> byte list \<Rightarrow> byte list" where
  "spec_chunk z tag payload =
    spec_be32 (int (length payload)) @ tag @ payload @ spec_be32 (crc32 z (tag @ payload) mod 2 ^ 32)"

subsection \<open>Well-formed input and the vocabulary of the properties\<close>

text \<open>The attribute ranges of the data model (section 3 of the specification): delta
  times are not negative, note numbers and velocities are 7-bit values, a tempo is not
  negative. The MIDI format and mido guarantee them for every message read from a file.\<close>

definition valid_msg :: "message \<Rightarrow> bool" where
  "valid_msg m =
    (0 \<le> time m \<and>
     (case body m of
        Note_on c n v \<Rightarrow> 0 \<le> n \<and> n \<le> 127 \<and> 0 \<le> v \<and> v \<le> 127
      | Note_off c n v \<Rightarrow> 0 \<le> n \<and> n \<le> 127 \<and> 0 \<le> v \<and> v \<le> 127
      | Set_tempo t \<Rightarrow> 0 \<le> t
      | Other_msg \<Rightarrow> True))"

text \<open>The invariant of a \<^verbatim>\<open>NoteSpan\<close> that the specification states.\<close>

definition span_ok :: "NoteSpan \<Rightarrow> bool" where
  "span_ok s = (start s \<le> end_time s \<and> 0 \<le> velocity s \<and> velocity s \<le> 127
                 \<and> 0 \<le> note_number s \<and> note_number s \<le> 127)"

text \<open>The loop invariant of the extractor: every sounding note started no later than
  the current time and carries a 7-bit note number and velocity; every emitted span is
  well formed.\<close>

definition extractor_inv :: "extractor \<Rightarrow> bool" where
  "extractor_inv st =
    (0 \<le> tempo st
     \<and> (\<forall>((c, n), (t0, v)) \<in> set (active st).
           t0 \<le> current_time st \<and> 0 \<le> v \<and> v \<le> 127 \<and> 0 \<le> n \<and> n \<le> 127)
     \<and> (\<forall>s \<in> set (spans st). span_ok s))"

text \<open>A message closes the key \<open>k = (channel, note)\<close> when it is a note_off for the key,
  or a note_on for it with velocity 0.\<close>

definition closes :: "int \<times> int \<Rightarrow> message \<Rightarrow> bool" where
  "closes k msg =
    (case body msg of
       Note_on c n v \<Rightarrow> (c, n) = k \<and> v = 0
     | Note_off c n v \<Rightarrow> (c, n) = k
     | Set_tempo t \<Rightarrow> False
     | Other_msg \<Rightarrow> False)"

text \<open>Example files: scenario A of the specification (a note of 480 ticks at the
  default tempo), a file that closes one note and leaves a second one hanging, and
  scenario D (a note-on that is never closed).\<close>

definition scenario_a :: MidiFile where
  "scenario_a = \<lparr>ticks_per_beat = 480,
     merged_tracks = [Message 0 (Note_on 0 60 64), Message 480 (Note_off 0 60 64)]\<rparr>"

definition two_note_file :: MidiFile where
  "two_note_file = \<lparr>ticks_per_beat = 480,
     merged_tracks = [Message 0 (Note_on 0 60 64), Message 480 (Note_off 0 60 64),
                      Message 0 (Note_on 1 127 1), Message 10 Other_msg]\<rparr>"

definition hanging_file :: MidiFile where
  "hanging_file = \<lparr>ticks_per_beat = 480,
     merged_tracks = [Message 0 (Note_on 0 60 64), Message 960 Other_msg]\<rparr>"

text \<open>The pixel of a sample with active spans in the words of the specification (4.4):
  per channel, the sum of the active spans' mapped colors, integer-divided by the number
  of active spans.\<close>

definition mean_color :: "NoteSpan list \<Rightarrow> pixel" where
  "mean_color act =
     (sum_list (map (\<lambda>sp. fst (color_for_note (note_number sp) (velocity sp))) act) div int (length act),
      sum_list (map (\<lambda>sp. fst (snd (color_for_note (note_number sp) (velocity sp)))) act) div int (length act),
      sum_list (map (\<lambda>sp. snd (snd (color_for_note (note_number sp) (velocity sp)))) act) div int (length act))"

text \<open>Two generator states hand out the same numbers: all their coming draws agree.\<close>

definition same_draws :: "rng \<Rightarrow> rng \<Rightarrow> bool" where
  "same_draws g1 g2 = (\<forall>k. g1 k mod 256 = g2 k mod 256)"

text \<open>A generator state whose coming draws are all the same number.\<close>

definition constant_rng :: "nat \<Rightarrow> rng" where
  "constant_rng n = (\<lambda>k. n)"

text \<open>Example span lists: scenario B of the specification (C and E, both with velocity
  100, sounding together for one second), and one note that starts after a second of
  silence.\<close>

definition scenario_b_spans :: "NoteSpan list" where
  "scenario_b_spans =
    [\<lparr>note_number = 60, channel = 0, start = 0, end_time = 1, velocity = 100\<rparr>,
     \<lparr>note_number = 64, channel = 0, start = 0, end_time = 1, velocity = 100\<rparr>]"

definition late_span :: NoteSpan where
  "late_span = \<lparr>note_number = 60, channel = 0, start = 1, end_time = 2, velocity = 100\<rparr>"

text \<open>An RGB triple: every channel is a byte value.\<close>

definition rgb_pixel :: "pixel \<Rightarrow> bool" where
  "rgb_pixel p = (case p of (r, g, b) \<Rightarrow>
     0 \<le> r \<and> r < 256 \<and> 0 \<le> g \<and> g < 256 \<and> 0 \<le> b \<and> b < 256)"

text \<open>The bytes of an ASCII string, for the chunk tags.\<close>

definition ascii :: "string \<Rightarrow> byte list" where
  "ascii s = map (\<lambda>c. of_nat (of_char c)) s"

text \<open>A stand-in for zlib in the examples: the checksum is a constant and the
  compressor returns its input.\<close>

definition toy_zlib :: zlib where
  "toy_zlib = \<lparr>crc32 = (\<lambda>bs. 0x12345678), compress = (\<lambda>bs level. bs)\<rparr>"

section \<open>The span extractor\<close>

subsection \<open>Single steps\<close>

lemma process_msg_Inr:
  assumes "tpb \<noteq> 0"
  shows "\<exists>st'. process_msg tpb st msg = Inr st'"
  using assms by (simp add: process_msg_def tick2second_def Let_def)

lemma process_msg_eq:
  assumes "tpb \<noteq> 0"
  shows "process_msg tpb st msg =
    Inr (let st1 = st\<lparr>current_time := current_time st
                   + real_of_int (time msg) * (real_of_int (tempo st) / 1000000) / real_of_int tpb\<rparr>
         in case body msg of
              Set_tempo t \<Rightarrow> st1\<lparr>tempo := t\<rparr>
            | Note_on c n v \<Rightarrow>
                if v > 0
                then st1\<lparr>active := AList.update (c, n) (current_time st1, v) (active st1)\<rparr>
                else if v = 0 then close_note st1 c n else st1
            | Note_off c n v \<Rightarrow> close_note st1 c n
            | Other_msg \<Rightarrow> st1)"
  using assms by (simp add: process_msg_def tick2second_def Let_def)

lemma process_msg_note_on:
  assumes "tpb \<noteq> 0" "0 < v" "body msg = Note_on c n v" "process_msg tpb st msg = Inr st'"
  shows "active st' = AList.update (c, n) (current_time st', v) (active st)"
  using assms by (auto simp: process_msg_eq Let_def)

lemma close_note_keys:
  "map fst (active (close_note st c n)) = filter (\<lambda>k. k \<noteq> (c, n)) (map fst (active st))"
proof (cases "map_of (active st) (c, n)")
  case None
  then have "(c, n) \<notin> set (map fst (active st))"
    by (simp add: map_of_eq_None_iff)
  then have "\<forall>k \<in> set (map fst (active st)). k \<noteq> (c, n)"
    by blast
  then have "filter (\<lambda>k. k \<noteq> (c, n)) (map fst (active st)) = map fst (active st)"
    by (rule filter_True)
  then show ?thesis using None by (simp add: close_note_def)
next
  case (Some a)
  have "map fst (AList.delete k al) = filter (\<lambda>k'. k' \<noteq> k) (map fst al)" for k :: "int \<times> int" and al :: "((int \<times> int) \<times> (real \<times> int)) list"
    by (induction al) auto
  then show ?thesis using Some by (simp add: close_note_def split: prod.splits)
qed

lemma process_msgs_total:
  assumes "tpb \<noteq> 0"
  shows "\<exists>st'. process_msgs tpb st msgs = Inr st'"
proof (induction msgs arbitrary: st)
  case Nil
  then show ?case by simp
next
  case (Cons m msgs)
  obtain st1 where s1: "process_msg tpb st m = Inr st1"
    using process_msg_Inr[OF assms] by blast
  then show ?case using Cons[of st1] by simp
qed

lemma process_msgs_append:
  "process_msgs tpb st (xs @ ys) =
    (case process_msgs tpb st xs of Inl e \<Rightarrow> Inl e | Inr st1 \<Rightarrow> process_msgs tpb st1 ys)"
  by (induction xs arbitrary: st) (auto split: sum.splits)

subsection \<open>Retriggered notes\<close>

text \<open>
  Claim C7. A note-on with velocity above 0 for a key (channel, note) that is already
  sounding replaces the stored start time and velocity by those of the new event and
  emits no span: the span list is unchanged, and the key stays in the table once, at its
  old place.
\<close>

theorem retrigger_overwrites:
  assumes "tpb \<noteq> 0" and "v > 0" and "map_of (active st) (c, n) = Some old"
  shows "\<exists>st'. process_msg tpb st (Message d (Note_on c n v)) = Inr st'
           \<and> spans st' = spans st
           \<and> map_of (active st') (c, n) = Some (current_time st', v)
           \<and> current_time st' = current_time st + real_of_int d * (real_of_int (tempo st) / 1000000) / real_of_int tpb
           \<and> map fst (active st') = map fst (active st)"
proof -
  have "(c, n) \<in> fst ` set (active st)"
    using assms(3) by (metis map_of_eq_None_iff option.distinct(1))
  then have "map fst (AList.update (c, n) x (active st)) = map fst (active st)" for x
    by (simp add: update_keys)
  then show ?thesis
    using assms(1,2) by (simp add: process_msg_def tick2second_def Let_def update_conv')
qed

text \<open>Witness for C7: middle C on channel 0 sounds since time 0 with velocity 64 and is
  struck again, with velocity 100, 480 ticks later.\<close>

theorem retrigger_overwrites_witness:
  "\<exists>st'. process_msg 480 (init_extractor\<lparr>active := [((0, 60), (0, 64))]\<rparr>)
              (Message 480 (Note_on 0 60 100)) = Inr st'
       \<and> spans st' = []
       \<and> map_of (active st') (0, 60) = Some (current_time st', 100)
       \<and> current_time st' = 1 / 2
       \<and> map fst (active st') = [(0, 60)]"
  using retrigger_overwrites[where tpb = 480 and v = 100
      and st = "init_extractor\<lparr>active := [((0, 60), (0, 64))]\<rparr>" and c = 0 and n = 60
      and old = "(0, 64)" and d = 480]
  by (simp add: init_extractor_def)

subsection \<open>Conversion of ticks to seconds\<close>

lemma scenario_a_spans:
  "parse_midi_to_spans [''a.mid'' \<mapsto> scenario_a] ''a.mid''
    = Inr [\<lparr>note_number = 60, channel = 0, start = 0, end_time = 1 / 2, velocity = 64\<rparr>]"
  by (simp add: parse_midi_to_spans_def scenario_a_def init_extractor_def process_msg_def
      tick2second_def close_note_def close_hanging_def Let_def)

text \<open>
  Counterexample for C4 as stated. In scenario A (note-on at tick 0, note-off at tick 480,
  480 ticks per beat, 500000 microseconds per beat) the single span ends at 0.5 seconds:
  480 ticks are one beat, and one beat lasts half a second. The span of the
  specification, ending at 1.0, is not the result.
\<close>

theorem scenario_a_ends_at_half_second:
  "parse_midi_to_spans [''a.mid'' \<mapsto> scenario_a] ''a.mid''
     = Inr [\<lparr>note_number = 60, channel = 0, start = 0, end_time = 1 / 2, velocity = 64\<rparr>]
   \<and> parse_midi_to_spans [''a.mid'' \<mapsto> scenario_a] ''a.mid''
     \<noteq> Inr [\<lparr>note_number = 60, channel = 0, start = 0, end_time = 1, velocity = 64\<rparr>]"
  by (simp add: scenario_a_spans)

text \<open>
  Claim C4, amended. Each message advances the clock by its own tick delta, converted
  with the tempo in effect before the message (a set_tempo changes the tempo only for the
  messages after it). A note-on with velocity above 0 followed at once by the note-off
  of the same key, \<open>d\<close> ticks later, appends exactly one span, of duration
  \<open>d * (tempo / 1000000) / ticks_per_beat\<close>. In scenario A the result is exactly one span
  from 0.0 to 0.5 seconds.
\<close>

theorem incremental_tick_conversion:
  assumes "tpb \<noteq> 0" and "0 < v"
  shows "\<exists>st1 st2 sp.
      process_msg tpb st msg = Inr st1
    \<and> current_time st1 = current_time st
         + real_of_int (time msg) * (real_of_int (tempo st) / 1000000) / real_of_int tpb
    \<and> tempo st1 = (case body msg of Set_tempo t \<Rightarrow> t | _ \<Rightarrow> tempo st)
    \<and> process_msgs tpb st [Message d0 (Note_on c n v), Message d (Note_off c n v')] = Inr st2
    \<and> spans st2 = spans st @ [sp]
    \<and> note_number sp = n \<and> channel sp = c \<and> velocity sp = v
    \<and> end_time sp - start sp = real_of_int d * (real_of_int (tempo st) / 1000000) / real_of_int tpb
    \<and> parse_midi_to_spans [''a.mid'' \<mapsto> \<lparr>ticks_per_beat = 480,
           merged_tracks = [Message 0 (Note_on c n v), Message 480 (Note_off c n v')]\<rparr>] ''a.mid''
         = Inr [\<lparr>note_number = n, channel = c, start = 0, end_time = 1 / 2, velocity = v\<rparr>]"
proof -
  have a: "\<exists>st1. process_msg tpb st msg = Inr st1
    \<and> current_time st1 = current_time st
         + real_of_int (time msg) * (real_of_int (tempo st) / 1000000) / real_of_int tpb
    \<and> tempo st1 = (case body msg of Set_tempo t \<Rightarrow> t | _ \<Rightarrow> tempo st)"
    using assms(1)
    by (simp add: process_msg_eq Let_def close_note_def split: msg_body.splits option.splits prod.splits)
  have b: "\<exists>st2 sp. process_msgs tpb st [Message d0 (Note_on c n v), Message d (Note_off c n v')] = Inr st2
    \<and> spans st2 = spans st @ [sp]
    \<and> note_number sp = n \<and> channel sp = c \<and> velocity sp = v
    \<and> end_time sp - start sp = real_of_int d * (real_of_int (tempo st) / 1000000) / real_of_int tpb"
    using assms
    by (simp add: process_msg_eq Let_def close_note_def update_conv')
  have c: "parse_midi_to_spans [''a.mid'' \<mapsto> \<lparr>ticks_per_beat = 480,
           merged_tracks = [Message 0 (Note_on c n v), Message 480 (Note_off c n v')]\<rparr>] ''a.mid''
         = Inr [\<lparr>note_number = n, channel = c, start = 0, end_time = 1 / 2, velocity = v\<rparr>]"
    using assms(2)
    by (simp add: parse_midi_to_spans_def init_extractor_def process_msg_eq
        close_note_def close_hanging_def Let_def update_conv')
  from a b c show ?thesis by blast
qed

text \<open>Witness for C4: at 250000 microseconds per beat and 480 ticks per beat, 240 ticks
  last an eighth of a second and a note of 480 ticks lasts a quarter of a second.\<close>

theorem incremental_tick_conversion_witness:
  "\<exists>st1 st2 sp.
      process_msg 480 (init_extractor\<lparr>tempo := 250000\<rparr>) (Message 240 (Set_tempo 400000)) = Inr st1
    \<and> current_time st1 = 1 / 8
    \<and> tempo st1 = 400000
    \<and> process_msgs 480 (init_extractor\<lparr>tempo := 250000\<rparr>)
          [Message 0 (Note_on 0 60 64), Message 480 (Note_off 0 60 0)] = Inr st2
    \<and> spans st2 = [sp]
    \<and> note_number sp = 60 \<and> channel sp = 0 \<and> velocity sp = 64
    \<and> end_time sp - start sp = 1 / 4
    \<and> parse_midi_to_spans [''a.mid'' \<mapsto> \<lparr>ticks_per_beat = 480,
           merged_tracks = [Message 0 (Note_on 0 60 64), Message 480 (Note_off 0 60 0)]\<rparr>] ''a.mid''
         = Inr [\<lparr>note_number = 60, channel = 0, start = 0, end_time = 1 / 2, velocity = 64\<rparr>]"
  using incremental_tick_conversion[where tpb = 480 and v = 64
      and st = "init_extractor\<lparr>tempo := 250000\<rparr>" and msg = "Message 240 (Set_tempo 400000)"
      and ?d0.0 = 0 and c = 0 and n = 60 and d = 480 and v' = 0]
  by (simp add: init_extractor_def)

subsection \<open>Every emitted span is well formed\<close>

lemma set_update_subset: "set (AList.update k v al) \<subseteq> insert (k, v) (set al)"
  by (induction al) auto

lemma set_delete_subset: "set (AList.delete k al) \<subseteq> set al"
  by (auto simp: AList.delete_eq)

lemma close_note_inv:
  assumes "extractor_inv st" "0 \<le> n" "n \<le> 127"
  shows "extractor_inv (close_note st c n)"
proof (cases "map_of (active st) (c, n)")
  case None
  then show ?thesis using assms by (simp add: close_note_def)
next
  case (Some a)
  obtain t0 v where a: "a = (t0, v)" by (cases a)
  have "((c, n), (t0, v)) \<in> set (active st)"
    using Some a by (simp add: map_of_SomeD)
  then have ok: "t0 \<le> current_time st \<and> 0 \<le> v \<and> v \<le> 127"
    using assms(1) by (auto simp: extractor_inv_def)
  show ?thesis
    using assms ok Some a set_delete_subset[of "(c, n)" "active st"]
    by (auto simp: close_note_def extractor_inv_def span_ok_def)
qed

lemma advance_inv:
  assumes "extractor_inv st" "0 \<le> d"
  shows "extractor_inv (st\<lparr>current_time := current_time st + d\<rparr>)"
  using assms by (fastforce simp: extractor_inv_def)

lemma process_msg_inv:
  assumes "extractor_inv st" "valid_msg msg" "0 < tpb" "process_msg tpb st msg = Inr st'"
  shows "extractor_inv st'"
proof -
  define d where "d = real_of_int (time msg) * (real_of_int (tempo st) / 1000000) / real_of_int tpb"
  have d0: "0 \<le> d"
    using assms(1,2,3) by (simp add: d_def extractor_inv_def valid_msg_def)
  define st1 where "st1 = st\<lparr>current_time := current_time st + d\<rparr>"
  have inv1: "extractor_inv st1"
    unfolding st1_def using assms(1) d0 by (rule advance_inv)
  show ?thesis
  proof (cases "body msg")
    case (Note_on c n v)
    then have rng: "0 \<le> n" "n \<le> 127" "0 \<le> v" "v \<le> 127"
      using assms(2) by (simp_all add: valid_msg_def)
    show ?thesis
    proof (cases "v > 0")
      case True
      then have "st' = st1\<lparr>active := AList.update (c, n) (current_time st1, v) (active st1)\<rparr>"
        using assms(3,4) Note_on by (simp add: process_msg_def tick2second_def st1_def d_def Let_def)
      then show ?thesis
        using inv1 rng set_update_subset[of "(c, n)" "(current_time st1, v)" "active st1"]
        by (auto simp: extractor_inv_def)
    next
      case False
      then have "st' = close_note st1 c n"
        using assms(3,4) Note_on rng by (simp add: process_msg_def tick2second_def st1_def d_def Let_def)
      then show ?thesis using inv1 rng close_note_inv by simp
    qed
  next
    case (Note_off c n v)
    then have rng: "0 \<le> n" "n \<le> 127"
      using assms(2) by (simp_all add: valid_msg_def)
    have "st' = close_note st1 c n"
      using assms(3,4) Note_off by (simp add: process_msg_def tick2second_def st1_def d_def Let_def)
    then show ?thesis using inv1 rng close_note_inv by simp
  next
    case (Set_tempo t)
    then have "0 \<le> t" using assms(2) by (simp add: valid_msg_def)
    moreover have "st' = st1\<lparr>tempo := t\<rparr>"
      using assms(3,4) Set_tempo by (simp add: process_msg_def tick2second_def st1_def d_def Let_def)
    ultimately show ?thesis using inv1 by (auto simp: extractor_inv_def)
  next
    case Other_msg
    then have "st' = st1"
      using assms(3,4) by (simp add: process_msg_def tick2second_def st1_def d_def Let_def)
    then show ?thesis using inv1 by simp
  qed
qed

lemma process_msgs_inv:
  assumes "0 < tpb"
  shows "extractor_inv st \<Longrightarrow> \<forall>m \<in> set msgs. valid_msg m
         \<Longrightarrow> \<exists>st'. process_msgs tpb st msgs = Inr st' \<and> extractor_inv st'"
proof (induction msgs arbitrary: st)
  case Nil
  then show ?case by simp
next
  case (Cons m msgs)
  obtain st1 where s1: "process_msg tpb st m = Inr st1"
    using process_msg_Inr[of tpb st m] assms by auto
  have "extractor_inv st1"
    using process_msg_inv[OF Cons.prems(1) _ assms s1] Cons.prems(2) by simp
  then show ?case using Cons.IH[of st1] Cons.prems(2) s1 by simp
qed

lemma close_hanging_ok:
  assumes "extractor_inv st"
  shows "\<forall>s \<in> set (close_hanging st). span_ok s"
  using assms by (fastforce simp: close_hanging_def extractor_inv_def span_ok_def)

text \<open>
  Claim C5. For every file whose messages are well formed (delta times and tempi not
  negative, note numbers and velocities within 0 to 127) and whose \<^verbatim>\<open>ticks_per_beat\<close> is
  positive, the extractor returns a list, and every span of it has \<open>end \<ge> start\<close>,
  a velocity within 0 to 127 and a note number within 0 to 127.
\<close>

theorem emitted_spans_well_formed:
  assumes "fs filepath = Some mid" and "0 < ticks_per_beat mid"
    and "\<forall>m \<in> set (merged_tracks mid). valid_msg m"
  shows "\<exists>sps. parse_midi_to_spans fs filepath = Inr sps
           \<and> (\<forall>s \<in> set sps. start s \<le> end_time s \<and> 0 \<le> velocity s \<and> velocity s \<le> 127
                                \<and> 0 \<le> note_number s \<and> note_number s \<le> 127)"
proof -
  have "extractor_inv init_extractor"
    by (simp add: extractor_inv_def init_extractor_def)
  then obtain st where st: "process_msgs (ticks_per_beat mid) init_extractor (merged_tracks mid) = Inr st"
    and inv: "extractor_inv st"
    using process_msgs_inv[OF assms(2), of init_extractor "merged_tracks mid"] assms(3) by auto
  have "\<forall>s \<in> set (spans st @ close_hanging st). span_ok s"
    using inv close_hanging_ok[OF inv] by (auto simp: extractor_inv_def)
  then show ?thesis
    using assms(1) st by (simp add: parse_midi_to_spans_def span_ok_def)
qed

text \<open>Witness for C5: a file with one closed note and one hanging note.\<close>

theorem emitted_spans_well_formed_witness:
  "\<exists>sps. parse_midi_to_spans [''b.mid'' \<mapsto> two_note_file] ''b.mid'' = Inr sps
     \<and> map (\<lambda>s. (start s \<le> end_time s, velocity s, note_number s)) sps = [(True, 64, 60), (True, 1, 127)]"
proof -
  have "\<forall>m \<in> set (merged_tracks two_note_file). valid_msg m"
    by (simp add: two_note_file_def valid_msg_def)
  from emitted_spans_well_formed[of "[''b.mid'' \<mapsto> two_note_file]" "''b.mid''" two_note_file, OF _ _ this]
  obtain sps where p: "parse_midi_to_spans [''b.mid'' \<mapsto> two_note_file] ''b.mid'' = Inr sps"
    and ok: "\<forall>s \<in> set sps. start s \<le> end_time s"
    by (auto simp: two_note_file_def)
  have "parse_midi_to_spans [''b.mid'' \<mapsto> two_note_file] ''b.mid''
    = Inr [\<lparr>note_number = 60, channel = 0, start = 0, end_time = 1 / 2, velocity = 64\<rparr>,
           \<lparr>note_number = 127, channel = 1, start = 1 / 2, end_time = 49 / 96, velocity = 1\<rparr>]"
    by (simp add: parse_midi_to_spans_def two_note_file_def init_extractor_def process_msg_eq
        close_note_def close_hanging_def Let_def)
  with p ok show ?thesis by auto
qed

subsection \<open>Hanging notes at the end of the stream\<close>

lemma process_msg_distinct:
  assumes "tpb \<noteq> 0" "distinct (map fst (active st))" "process_msg tpb st msg = Inr st'"
  shows "distinct (map fst (active st'))"
proof -
  have "distinct (map fst (active (close_note s c n)))" if "distinct (map fst (active s))" for s c n
    using that by (simp add: close_note_keys)
  then show ?thesis
    using assms by (auto simp: process_msg_eq Let_def distinct_update split: msg_body.splits if_splits)
qed

lemma process_msg_keeps_key:
  assumes "tpb \<noteq> 0" "k \<in> fst ` set (active st)" "\<not> closes k msg" "process_msg tpb st msg = Inr st'"
  shows "k \<in> fst ` set (active st')"
proof -
  have "k \<in> set (map fst (active (close_note s c n)))"
    if "k \<in> fst ` set (active s)" "(c, n) \<noteq> k" for s c n
    using that unfolding close_note_keys by auto
  then have cl: "k \<in> fst ` set (active (close_note s c n))"
    if "k \<in> fst ` set (active s)" "(c, n) \<noteq> k" for s c n
    using that by simp
  show ?thesis
  proof (cases "body msg")
    case (Note_on c n v)
    show ?thesis
    proof (cases "v > 0")
      case True
      then have "fst ` set (active st') = {(c, n)} \<union> fst ` set (active st)"
        using process_msg_note_on[OF assms(1) True Note_on assms(4)] by (simp only: dom_update)
      then show ?thesis using assms(2) by blast
    next
      case False
      show ?thesis
      proof (cases "v = 0")
        case True
        then have "(c, n) \<noteq> k" using assms(3) Note_on by (auto simp: closes_def)
        from cl[OF _ this, of "st\<lparr>current_time := current_time st
                   + real_of_int (time msg) * (real_of_int (tempo st) / 1000000) / real_of_int tpb\<rparr>"]
        show ?thesis using assms True Note_on by (auto simp: process_msg_eq Let_def)
      next
        case F2: False
        then show ?thesis using assms False Note_on by (auto simp: process_msg_eq Let_def)
      qed
    qed
  next
    case (Note_off c n v)
    then have "(c, n) \<noteq> k" using assms(3) by (auto simp: closes_def)
    from cl[OF _ this, of "st\<lparr>current_time := current_time st
                   + real_of_int (time msg) * (real_of_int (tempo st) / 1000000) / real_of_int tpb\<rparr>"]
    show ?thesis using assms Note_off by (auto simp: process_msg_eq Let_def)
  next
    case (Set_tempo t)
    then show ?thesis using assms by (auto simp: process_msg_eq Let_def)
  next
    case Other_msg
    then show ?thesis using assms by (auto simp: process_msg_eq Let_def)
  qed
qed

lemma process_msgs_distinct:
  assumes "tpb \<noteq> 0"
  shows "distinct (map fst (active st)) \<Longrightarrow> process_msgs tpb st msgs = Inr st'
         \<Longrightarrow> distinct (map fst (active st'))"
proof (induction msgs arbitrary: st)
  case Nil
  then show ?case by simp
next
  case (Cons m msgs)
  obtain st1 where s1: "process_msg tpb st m = Inr st1"
    using process_msg_Inr[OF assms] by blast
  then show ?case
    using Cons process_msg_distinct[OF assms Cons.prems(1) s1] by simp
qed

lemma process_msgs_keeps_key:
  assumes "tpb \<noteq> 0"
  shows "k \<in> fst ` set (active st) \<Longrightarrow> \<forall>m \<in> set msgs. \<not> closes k m
         \<Longrightarrow> process_msgs tpb st msgs = Inr st' \<Longrightarrow> k \<in> fst ` set (active st')"
proof (induction msgs arbitrary: st)
  case Nil
  then show ?case by simp
next
  case (Cons m msgs)
  obtain st1 where s1: "process_msg tpb st m = Inr st1"
    using process_msg_Inr[OF assms] by blast
  have "k \<in> fst ` set (active st1)"
    using process_msg_keeps_key[OF assms Cons.prems(1) _ s1] Cons.prems(2) by simp
  then show ?case
    using Cons.IH[of st1] Cons.prems s1 by simp
qed

lemma close_hanging_count:
  assumes "distinct (map fst (active st))" "k \<in> fst ` set (active st)"
  shows "length (filter (\<lambda>s. (channel s, note_number s) = k) (close_hanging st)) = 1"
proof -
  have "distinct (map fst al) \<Longrightarrow> k \<in> fst ` set al \<Longrightarrow>
        length (filter (\<lambda>s. (channel s, note_number s) = k)
          (map (\<lambda>((c, n), (start_time, vel)).
             \<lparr>note_number = n, channel = c, start = start_time,
              end_time = t, velocity = vel\<rparr>) al)) = 1"
    for al :: "((int \<times> int) \<times> (real \<times> int)) list" and t
  proof (induction al)
    case Nil
    then show ?case by simp
  next
    case (Cons a al)
    obtain c n t0 v where a: "a = ((c, n), (t0, v))" by (metis prod.collapse)
    show ?case
    proof (cases "(c, n) = k")
      case True
      then have "k \<notin> fst ` set al" using Cons.prems(1) a by auto
      then have "filter (\<lambda>s. (channel s, note_number s) = k)
          (map (\<lambda>((c, n), (start_time, vel)).
             \<lparr>note_number = n, channel = c, start = start_time,
              end_time = t, velocity = vel\<rparr>) al) = []"
        by (force simp: filter_empty_conv)
      moreover have "k = (c, n)" using True by simp
      ultimately show ?thesis using a by simp
    next
      case False
      then have "k \<in> fst ` set al" using Cons.prems(2) a by auto
      then show ?thesis using Cons False a by auto
    qed
  qed
  then show ?thesis using assms by (simp add: close_hanging_def)
qed

text \<open>
  Claim C6. When the stream ends, the spans appended by the closing loop all end at the
  last observed time, and every key that is still sounding has exactly one span among
  them. In particular a note-on with velocity above 0 that no later message closes has
  exactly one such span.
\<close>

theorem hanging_notes_closed_at_stream_end:
  assumes "fs filepath = Some mid" and "ticks_per_beat mid \<noteq> 0"
  shows "\<exists>st. process_msgs (ticks_per_beat mid) init_extractor (merged_tracks mid) = Inr st
           \<and> parse_midi_to_spans fs filepath = Inr (spans st @ close_hanging st)
           \<and> (\<forall>s \<in> set (close_hanging st). end_time s = current_time st)
           \<and> (\<forall>k \<in> fst ` set (active st).
                 length (filter (\<lambda>s. (channel s, note_number s) = k) (close_hanging st)) = 1)
           \<and> (\<forall>pre d c n v post.
                 merged_tracks mid = pre @ Message d (Note_on c n v) # post \<and> 0 < v
                   \<and> (\<forall>m \<in> set post. \<not> closes (c, n) m)
                 \<longrightarrow> length (filter (\<lambda>s. (channel s, note_number s) = (c, n)) (close_hanging st)) = 1)"
proof -
  let ?tpb = "ticks_per_beat mid"
  obtain st where st: "process_msgs ?tpb init_extractor (merged_tracks mid) = Inr st"
    using process_msgs_total[OF assms(2)] by blast
  have dist: "distinct (map fst (active st))"
    using process_msgs_distinct[OF assms(2) _ st] by (simp add: init_extractor_def)
  have ends: "\<forall>s \<in> set (close_hanging st). end_time s = current_time st"
    by (auto simp: close_hanging_def)
  have once: "\<forall>k \<in> fst ` set (active st).
      length (filter (\<lambda>s. (channel s, note_number s) = k) (close_hanging st)) = 1"
    using close_hanging_count[OF dist] by blast
  have sounding: "(c, n) \<in> fst ` set (active st)"
    if split: "merged_tracks mid = pre @ Message d (Note_on c n v) # post" and v: "0 < v"
      and post: "\<forall>m \<in> set post. \<not> closes (c, n) m" for pre d c n v post
  proof -
    obtain st1 where s1: "process_msgs ?tpb init_extractor pre = Inr st1"
      using process_msgs_total[OF assms(2)] by blast
    obtain st2 where s2: "process_msg ?tpb st1 (Message d (Note_on c n v)) = Inr st2"
      using process_msg_Inr[OF assms(2)] by blast
    have "fst ` set (active st2) = {(c, n)} \<union> fst ` set (active st1)"
      using process_msg_note_on[OF assms(2) v _ s2] by (simp only: dom_update message.sel)
    then have key: "(c, n) \<in> fst ` set (active st2)"
      by blast
    have "process_msgs ?tpb st2 post = Inr st"
      using st s1 s2 unfolding split by (simp add: process_msgs_append)
    then show ?thesis
      using process_msgs_keeps_key[OF assms(2) key post] by simp
  qed
  have final: "length (filter (\<lambda>s. (channel s, note_number s) = (c, n)) (close_hanging st)) = 1"
    if "merged_tracks mid = pre @ Message d (Note_on c n v) # post \<and> 0 < v
          \<and> (\<forall>m \<in> set post. \<not> closes (c, n) m)" for pre d c n v post
    using close_hanging_count[OF dist sounding[of pre d c n v post]] that by blast
  show ?thesis
  proof (intro exI[of _ st] conjI)
    show "process_msgs ?tpb init_extractor (merged_tracks mid) = Inr st"
      by (rule st)
    show "parse_midi_to_spans fs filepath = Inr (spans st @ close_hanging st)"
      using st assms(1) by (simp add: parse_midi_to_spans_def)
    show "\<forall>s \<in> set (close_hanging st). end_time s = current_time st"
      by (rule ends)
    show "\<forall>k \<in> fst ` set (active st).
      length (filter (\<lambda>s. (channel s, note_number s) = k) (close_hanging st)) = 1"
      by (rule once)
    show "\<forall>pre d c n v post.
        merged_tracks mid = pre @ Message d (Note_on c n v) # post \<and> 0 < v
          \<and> (\<forall>m \<in> set post. \<not> closes (c, n) m)
        \<longrightarrow> length (filter (\<lambda>s. (channel s, note_number s) = (c, n)) (close_hanging st)) = 1"
      using final by blast
  qed
qed

text \<open>Witness for C6 (scenario D): a note-on at tick 0 and nothing but another message
  960 ticks later; the only span ends at the final time, 1 second.\<close>

theorem hanging_notes_closed_at_stream_end_witness:
  "parse_midi_to_spans [''d.mid'' \<mapsto> hanging_file] ''d.mid''
     = Inr [\<lparr>note_number = 60, channel = 0, start = 0, end_time = 1, velocity = 64\<rparr>]
   \<and> length (filter (\<lambda>s. (channel s, note_number s) = (0, 60))
        [\<lparr>note_number = 60, channel = 0, start = 0, end_time = 1, velocity = 64\<rparr>]) = 1"
proof -
  from hanging_notes_closed_at_stream_end[of "[''d.mid'' \<mapsto> hanging_file]" "''d.mid''" hanging_file]
  obtain st where "process_msgs 480 init_extractor (merged_tracks hanging_file) = Inr st"
    and "parse_midi_to_spans [''d.mid'' \<mapsto> hanging_file] ''d.mid'' = Inr (spans st @ close_hanging st)"
    by (auto simp: hanging_file_def)
  then show ?thesis
    by (auto simp: hanging_file_def process_msg_eq init_extractor_def Let_def close_hanging_def)
qed

section \<open>The strip builder\<close>

subsection \<open>Colors of the examples\<close>

lemma color_C_100: "color_for_note 60 100 = (222, 186, 8)"
  by (simp add: color_for_note_def NOTE_NAMES_def SHARP_COLORS_def NATURAL_COLORS_def
      scale_channel_def py_int_of_float_def Let_def)

lemma color_E_100: "color_for_note 64 100 = (175, 141, 34)"
  by (simp add: color_for_note_def NOTE_NAMES_def SHARP_COLORS_def NATURAL_COLORS_def
      scale_channel_def py_int_of_float_def Let_def)

subsection \<open>The sampling loop\<close>

lemma fold_add_color:
  "fold add_color act (r, g, b) =
     (r + sum_list (map (\<lambda>sp. fst (color_for_note (note_number sp) (velocity sp))) act),
      g + sum_list (map (\<lambda>sp. fst (snd (color_for_note (note_number sp) (velocity sp)))) act),
      b + sum_list (map (\<lambda>sp. snd (snd (color_for_note (note_number sp) (velocity sp)))) act))"
  by (induction act arbitrary: r g b) (auto simp: add_color_def split: prod.splits)

lemma strip_loop_Cons_active:
  assumes "filter (\<lambda>sp. start sp \<le> real i * step \<and> real i * step < end_time sp) sps \<noteq> []"
  shows "strip_loop sps step background (i # is) g strip =
     strip_loop sps step background is g
       (strip @ [mean_color (filter (\<lambda>sp. start sp \<le> real i * step \<and> real i * step < end_time sp) sps)])"
  using assms by (simp add: Let_def fold_add_color mean_color_def)

lemma strip_loop_Cons_background:
  assumes "filter (\<lambda>sp. start sp \<le> real i * step \<and> real i * step < end_time sp) sps = []"
  shows "strip_loop sps step (Some c) (i # is) g strip = strip_loop sps step (Some c) is g (strip @ [c])"
  using assms by (simp add: Let_def)

lemma strip_loop_Cons_random:
  assumes "filter (\<lambda>sp. start sp \<le> real i * step \<and> real i * step < end_time sp) sps = []"
  shows "strip_loop sps step None (i # is) g strip =
     strip_loop sps step None is (snd (random_pixel g)) (strip @ [fst (random_pixel g)])"
  using assms by (simp add: Let_def split: prod.splits)

lemma strip_loop_spec:
  "\<exists>ps g'. strip_loop sps step background is g strip = (strip @ ps, g')
     \<and> length ps = length is
     \<and> (\<forall>k < length is.
          filter (\<lambda>sp. start sp \<le> real (is ! k) * step \<and> real (is ! k) * step < end_time sp) sps \<noteq> []
          \<longrightarrow> ps ! k = mean_color
                (filter (\<lambda>sp. start sp \<le> real (is ! k) * step \<and> real (is ! k) * step < end_time sp) sps))"
proof (induction "is" arbitrary: g strip)
  case Nil
  then show ?case by simp
next
  case (Cons i "is")
  let ?act = "\<lambda>j. filter (\<lambda>sp. start sp \<le> real j * step \<and> real j * step < end_time sp) sps"
  have "\<exists>p g1. strip_loop sps step background (i # is) g strip
           = strip_loop sps step background is g1 (strip @ [p])
         \<and> (?act i \<noteq> [] \<longrightarrow> p = mean_color (?act i))"
  proof (cases "?act i = []")
    case True
    show ?thesis
    proof (cases background)
      case None
      show ?thesis
        unfolding None using strip_loop_Cons_random[OF True] True by blast
    next
      case (Some c)
      show ?thesis
        unfolding Some using strip_loop_Cons_background[OF True] True by blast
    qed
  next
    case False
    then show ?thesis using strip_loop_Cons_active[OF False] by blast
  qed
  then obtain p g1 where step1: "strip_loop sps step background (i # is) g strip
           = strip_loop sps step background is g1 (strip @ [p])"
    and p: "?act i \<noteq> [] \<longrightarrow> p = mean_color (?act i)" by blast
  obtain ps g' where ih: "strip_loop sps step background is g1 (strip @ [p]) = ((strip @ [p]) @ ps, g')"
    "length ps = length is"
    "\<forall>k < length is. ?act (is ! k) \<noteq> [] \<longrightarrow> ps ! k = mean_color (?act (is ! k))"
    using Cons[of g1 "strip @ [p]"] by blast
  have "\<forall>k < length (i # is). ?act ((i # is) ! k) \<noteq> [] \<longrightarrow> (p # ps) ! k = mean_color (?act ((i # is) ! k))"
  proof (intro allI impI)
    fix k assume "k < length (i # is)" "?act ((i # is) ! k) \<noteq> []"
    then show "(p # ps) ! k = mean_color (?act ((i # is) ! k))"
      using p ih(3) by (cases k) auto
  qed
  then show ?case
    using step1 ih(1,2) by (intro exI[of _ "p # ps"] exI[of _ g']) simp
qed

lemma fold_max_Max: "fold max (map f rest) (f s) = Max (f ` set (s # rest))" for f :: "'a \<Rightarrow> real"
  using Max.set_eq_fold[of "f s" "map f rest"] by simp

text \<open>
  Claim C3. For a non-empty span list and a positive \<^verbatim>\<open>pixels_per_second\<close> the strip
  builder returns a strip of length \<open>max 1 \<lceil>(max end over all spans) * pixels_per_second\<rceil>\<close>.
  At every index \<open>i\<close>, with sample time \<open>t = i / pixels_per_second\<close>: if some span has
  \<open>start \<le> t < end\<close>, pixel \<open>i\<close> is the per-channel sum of the active spans' colors
  integer-divided by their number; and a span whose end is exactly \<open>t\<close> is not among the
  active spans.
\<close>

theorem strip_samples:
  assumes "sps \<noteq> []" and "0 < pps"
  shows "\<exists>strip g'.
      spans_to_color_strip g sps pps background = Inr (strip, g')
    \<and> int (length strip) = max 1 \<lceil>Max (end_time ` set sps) * real_of_int pps\<rceil>
    \<and> (\<forall>i < length strip.
          (filter (\<lambda>sp. start sp \<le> real i / real_of_int pps \<and> real i / real_of_int pps < end_time sp) sps \<noteq> []
           \<longrightarrow> strip ! i = mean_color
                 (filter (\<lambda>sp. start sp \<le> real i / real_of_int pps \<and> real i / real_of_int pps < end_time sp) sps))
        \<and> (\<forall>sp \<in> set sps. end_time sp = real i / real_of_int pps
              \<longrightarrow> sp \<notin> set (filter (\<lambda>sp. start sp \<le> real i / real_of_int pps
                                        \<and> real i / real_of_int pps < end_time sp) sps)))"
proof -
  obtain s rest where sps: "sps = s # rest" using assms(1) by (cases sps) auto
  define n where "n = nat (max 1 \<lceil>Max (end_time ` set sps) * real_of_int pps\<rceil>)"
  define step where "step = 1 / real_of_int pps"
  have run: "spans_to_color_strip g sps pps background = Inr (strip_loop sps step background [0..<n] g [])"
    using assms(2) unfolding sps spans_to_color_strip_def n_def step_def
    by (simp add: Let_def fold_max_Max del: Max_insert max_less_iff_conj)
  obtain ps g' where loop: "strip_loop sps step background [0..<n] g [] = ([] @ ps, g')"
    and len: "length ps = length [0..<n]"
    and px: "\<forall>k < length [0..<n].
          filter (\<lambda>sp. start sp \<le> real ([0..<n] ! k) * step \<and> real ([0..<n] ! k) * step < end_time sp) sps \<noteq> []
          \<longrightarrow> ps ! k = mean_color
                (filter (\<lambda>sp. start sp \<le> real ([0..<n] ! k) * step \<and> real ([0..<n] ! k) * step < end_time sp) sps)"
    using strip_loop_spec[of sps step background "[0..<n]" g "[]"] by blast
  have t: "real i * step = real i / real_of_int pps" for i
    by (simp add: step_def)
  have "int (length ps) = max 1 \<lceil>Max (end_time ` set sps) * real_of_int pps\<rceil>"
    using len by (simp add: n_def)
  moreover have "\<forall>i < length ps.
      filter (\<lambda>sp. start sp \<le> real i / real_of_int pps \<and> real i / real_of_int pps < end_time sp) sps \<noteq> []
       \<longrightarrow> ps ! i = mean_color
             (filter (\<lambda>sp. start sp \<le> real i / real_of_int pps \<and> real i / real_of_int pps < end_time sp) sps)"
    using px len by (simp add: t)
  ultimately show ?thesis
    using run loop by (intro exI[of _ ps] exI[of _ g']) simp
qed

text \<open>Witness for C3 (scenario B): C and E with velocity 100 overlap for one second; at
  2 pixels per second both samples are the integer mean of the two colors.\<close>

theorem strip_samples_witness:
  "\<exists>strip g'. spans_to_color_strip (constant_rng 0) scenario_b_spans 2 None = Inr (strip, g')
     \<and> length strip = 2 \<and> strip ! 0 = (198, 163, 21) \<and> strip ! 1 = (198, 163, 21)"
proof -
  have h: "scenario_b_spans \<noteq> []" "0 < (2::int)"
    by (simp_all add: scenario_b_spans_def)
  from strip_samples[OF h, of "constant_rng 0" None]
  obtain strip g' where run: "spans_to_color_strip (constant_rng 0) scenario_b_spans 2 None = Inr (strip, g')"
    and len: "int (length strip) = max 1 \<lceil>Max (end_time ` set scenario_b_spans) * real_of_int 2\<rceil>"
    and px: "\<forall>i < length strip.
          (filter (\<lambda>sp. start sp \<le> real i / real_of_int 2 \<and> real i / real_of_int 2 < end_time sp) scenario_b_spans \<noteq> []
           \<longrightarrow> strip ! i = mean_color
                 (filter (\<lambda>sp. start sp \<le> real i / real_of_int 2 \<and> real i / real_of_int 2 < end_time sp) scenario_b_spans))
        \<and> (\<forall>sp \<in> set scenario_b_spans. end_time sp = real i / real_of_int 2
              \<longrightarrow> sp \<notin> set (filter (\<lambda>sp. start sp \<le> real i / real_of_int 2
                                        \<and> real i / real_of_int 2 < end_time sp) scenario_b_spans))"
    by blast
  have l2: "length strip = 2"
    using len by (simp add: scenario_b_spans_def)
  have "strip ! 0 = (198, 163, 21)"
    using px[rule_format, of 0] l2
    by (simp add: scenario_b_spans_def mean_color_def color_C_100 color_E_100)
  moreover have "strip ! 1 = (198, 163, 21)"
    using px[rule_format, of 1] l2
    by (simp add: scenario_b_spans_def mean_color_def color_C_100 color_E_100)
  ultimately show ?thesis using run l2 by blast
qed

section \<open>The rectangle packer\<close>

subsection \<open>The two dimensions\<close>

lemma sqrt_gt_D:
  fixes x y :: real
  assumes "x < sqrt y" "0 \<le> x"
  shows "x\<^sup>2 < y"
proof (rule ccontr)
  assume "\<not> x\<^sup>2 < y"
  then have "y \<le> x\<^sup>2" by simp
  then have "sqrt y \<le> x" using assms(2) by (rule real_le_lsqrt[rotated])
  then show False using assms(1) by simp
qed

lemma rect_dims_bounds:
  fixes a rw rh h w :: int
  assumes a: "0 < a" and rw: "0 < rw" and rh: "0 < rh"
    and h: "h = \<lceil>sqrt (real_of_int a / (real_of_int rw / real_of_int rh))\<rceil>"
    and w: "w = \<lceil>real_of_int h * (real_of_int rw / real_of_int rh)\<rceil>"
  shows "0 < h" and "a \<le> w * h" and "w * h - a < 2 * w + h"
proof -
  define r where "r = real_of_int rw / real_of_int rh"
  define A where "A = real_of_int a"
  define H where "H = real_of_int h"
  define W where "W = real_of_int w"
  have r0: "0 < r" using rw rh by (simp add: r_def)
  have A0: "0 < A" using a by (simp add: A_def)
  have x0: "0 < A / r" using r0 A0 by simp
  have hs: "H - 1 < sqrt (A / r)" "sqrt (A / r) \<le> H"
    using ceiling_correct[of "sqrt (A / r)"] by (simp_all add: h H_def A_def r_def)
  have "0 < sqrt (A / r)" using x0 by simp
  then have "0 < H" using hs(2) by linarith
  then show h0: "0 < h" by (simp add: H_def)
  then have H1: "0 \<le> H - 1" by (simp add: H_def)
  have ws: "W - 1 < H * r" "H * r \<le> W"
    using ceiling_correct[of "H * r"] by (simp_all add: w W_def H_def r_def)
  have "A / r \<le> H\<^sup>2"
    using hs(2) \<open>0 < H\<close> by (metis less_eq_real_def real_sqrt_le_iff real_sqrt_abs abs_of_pos)
  then have up: "A \<le> H * H * r"
    using r0 by (simp add: pos_divide_le_eq power2_eq_square)
  have "(H - 1)\<^sup>2 < A / r"
    using hs(1) H1 by (rule sqrt_gt_D)
  then have "(H - 1) * (H - 1) * r < A"
    using r0 by (simp add: pos_less_divide_eq power2_eq_square)
  then have low: "H * H * r - 2 * (H * r) + r < A"
    by (simp add: algebra_simps)
  have "H * r * H \<le> W * H"
    using ws(2) \<open>0 < H\<close> by (simp add: mult_right_mono)
  then have ge: "A \<le> W * H" using up by (simp add: mult.commute mult.left_commute)
  have "W * H < (H * r + 1) * H"
    using ws(1) \<open>0 < H\<close> by (simp add: mult_strict_right_mono)
  then have "W * H < H * H * r + H"
    by (simp add: algebra_simps)
  then have lt: "W * H - A < 2 * W + H"
    using low ws(2) r0 by linarith
  show "a \<le> w * h"
    using ge unfolding A_def W_def H_def by (metis of_int_le_iff of_int_mult)
  have "real_of_int (w * h - a) < real_of_int (2 * w + h)"
    using lt by (simp add: A_def W_def H_def)
  then show "w * h - a < 2 * w + h"
    by (simp only: of_int_less_iff)
qed

lemma height_eq:
  fixes a rw rh h :: int
  assumes "0 < rw" "0 < rh" "0 < h"
    and "(h - 1) * (h - 1) * rw < a * rh" and "a * rh \<le> h * h * rw"
  shows "\<lceil>sqrt (real_of_int a / (real_of_int rw / real_of_int rh))\<rceil> = h"
proof (rule ceiling_unique)
  have eq: "real_of_int a / (real_of_int rw / real_of_int rh) = real_of_int (a * rh) / real_of_int rw"
    by simp
  have "real_of_int ((h - 1) * (h - 1) * rw) < real_of_int (a * rh)"
    using assms(4) by (simp only: of_int_less_iff)
  then have "(real_of_int h - 1)\<^sup>2 < real_of_int (a * rh) / real_of_int rw"
    using assms(1) by (simp add: pos_less_divide_eq power2_eq_square)
  then show "real_of_int h - 1 < sqrt (real_of_int a / (real_of_int rw / real_of_int rh))"
    unfolding eq by (rule real_less_rsqrt)
  have "real_of_int (a * rh) \<le> real_of_int (h * h * rw)"
    using assms(5) by (simp only: of_int_le_iff)
  then have "real_of_int (a * rh) / real_of_int rw \<le> (real_of_int h)\<^sup>2"
    using assms(1) by (simp add: pos_divide_le_eq power2_eq_square)
  moreover have "0 \<le> real_of_int h" using assms(3) by simp
  ultimately show "sqrt (real_of_int a / (real_of_int rw / real_of_int rh)) \<le> real_of_int h"
    unfolding eq by (rule real_le_lsqrt[rotated])
qed

lemma width_eq:
  fixes rw rh h w :: int
  assumes "0 < rh" and "(w - 1) * rh < h * rw" and "h * rw \<le> w * rh"
  shows "\<lceil>real_of_int h * (real_of_int rw / real_of_int rh)\<rceil> = w"
proof (rule ceiling_unique)
  have eq: "real_of_int h * (real_of_int rw / real_of_int rh) = real_of_int (h * rw) / real_of_int rh"
    by simp
  have "real_of_int ((w - 1) * rh) < real_of_int (h * rw)"
    using assms(2) by (simp only: of_int_less_iff)
  then show "real_of_int w - 1 < real_of_int h * (real_of_int rw / real_of_int rh)"
    unfolding eq using assms(1) by (simp add: pos_less_divide_eq)
  have "real_of_int (h * rw) \<le> real_of_int (w * rh)"
    using assms(3) by (simp only: of_int_le_iff)
  then show "real_of_int h * (real_of_int rw / real_of_int rh) \<le> real_of_int w"
    unfolding eq using assms(1) by (simp add: pos_divide_le_eq)
qed

lemma noise_pad_appends:
  "\<exists>ps. fst (noise_pad k g strip) = strip @ ps \<and> length ps = k"
proof (induction k arbitrary: g strip)
  case 0
  then show ?case by simp
next
  case (Suc k)
  obtain p g' where rp: "random_pixel g = (p, g')" by (cases "random_pixel g")
  obtain ps where "fst (noise_pad k g' (strip @ [p])) = (strip @ [p]) @ ps" "length ps = k"
    using Suc[of g' "strip @ [p]"] by blast
  then have "fst (noise_pad (Suc k) g strip) = strip @ (p # ps) \<and> length (p # ps) = Suc k"
    using rp by simp
  then show ?case by blast
qed

lemma color_strip_to_rect_image_eq:
  assumes "strip \<noteq> []" "0 < rw" "0 < rh"
    and "h = \<lceil>sqrt (real_of_int (int (length strip)) / (real_of_int rw / real_of_int rh))\<rceil>"
    and "w = \<lceil>real_of_int h * (real_of_int rw / real_of_int rh)\<rceil>"
    and "padded = (if w * h - int (length strip) > 0
                   then (if noise then noise_pad (nat (w * h - int (length strip))) g strip
                         else (strip @ replicate (nat (w * h - int (length strip))) (0, 0, 0), g))
                   else (strip, g))"
  shows "color_strip_to_rect_image g strip (rw, rh) noise
           = Inr ((w, h, take (nat (w * h)) (fst padded)), fst padded, snd padded)"
  using assms(1,2,3) unfolding assms(4,5,6) color_strip_to_rect_image_def
  by (simp add: Let_def split: prod.splits)

lemma color_strip_to_rect_image_errors:
  "color_strip_to_rect_image g strip ratio noise = Inr res
    \<Longrightarrow> strip \<noteq> [] \<and> 0 < fst ratio \<and> 0 < snd ratio"
  by (auto simp: color_strip_to_rect_image_def split: if_splits prod.splits)

lemma rect_109:
  "color_strip_to_rect_image (constant_rng 0) (replicate 109 (0, 0, 0)) (4, 3) False
     = Inr ((14, 10, replicate 140 (0, 0, 0)), replicate 140 (0, 0, 0), (constant_rng 0))"
proof -
  have hh: "10 = \<lceil>sqrt (real_of_int (int (length (replicate 109 (0::int, 0::int, 0::int))))
                  / (real_of_int 4 / real_of_int 3))\<rceil>"
    by (rule height_eq[symmetric]) simp_all
  have ww: "14 = \<lceil>real_of_int 10 * (real_of_int 4 / real_of_int 3)\<rceil>"
    by (rule width_eq[symmetric]) simp_all
  have "replicate 109 (0::int, 0::int, 0::int) @ replicate 31 (0, 0, 0) = replicate 140 (0, 0, 0)"
    by (simp add: replicate_add[symmetric])
  then show ?thesis
    using color_strip_to_rect_image_eq[where noise = False and g = "constant_rng 0", OF _ _ _ hh ww refl] by simp
qed

text \<open>
  Counterexample for C2 as stated. A strip of 109 pixels at the default ratio 4:3 is
  packed into 14 by 10 pixels (the square root of 81.75 lies between 9 and 10, and
  40 / 3 between 13 and 14): 31 pixels are padding, and 31 is not below
  \<open>width + height = 24\<close>.
\<close>

theorem rect_bound_fails_at_109:
  "color_strip_to_rect_image (constant_rng 0) (replicate 109 (0, 0, 0)) (4, 3) False
     = Inr ((14, 10, replicate 140 (0, 0, 0)), replicate 140 (0, 0, 0), (constant_rng 0))
   \<and> \<not> ((14::int) * 10 - int (length (replicate 109 (0::int, 0::int, 0::int))) < 14 + 10)"
  by (simp add: rect_109)

text \<open>
  Claim C2, amended. For a non-empty strip and a positive ratio \<open>rw:rh\<close> the packer
  returns \<open>height = \<lceil>sqrt (area / (rw / rh))\<rceil>\<close> and \<open>width = \<lceil>height * (rw / rh)\<rceil>\<close>,
  and these satisfy \<open>width * height \<ge> area\<close> and
  \<open>width * height - area < 2 * width + height\<close>.
\<close>

theorem rect_dimensions:
  assumes "strip \<noteq> []" and "0 < rw" and "0 < rh"
  shows "\<exists>w h data strip' g'.
      color_strip_to_rect_image g strip (rw, rh) noise = Inr ((w, h, data), strip', g')
    \<and> h = \<lceil>sqrt (real (length strip) / (real_of_int rw / real_of_int rh))\<rceil>
    \<and> w = \<lceil>real_of_int h * (real_of_int rw / real_of_int rh)\<rceil>
    \<and> w * h \<ge> int (length strip)
    \<and> w * h - int (length strip) < 2 * w + h"
proof -
  define h where "h = \<lceil>sqrt (real_of_int (int (length strip)) / (real_of_int rw / real_of_int rh))\<rceil>"
  define w where "w = \<lceil>real_of_int h * (real_of_int rw / real_of_int rh)\<rceil>"
  have a: "0 < int (length strip)" using assms(1) by simp
  note b = rect_dims_bounds[OF a assms(2,3) h_def w_def]
  have "\<exists>data strip' g'. color_strip_to_rect_image g strip (rw, rh) noise = Inr ((w, h, data), strip', g')"
    using color_strip_to_rect_image_eq[where noise = noise and g = g, OF assms h_def w_def refl] by blast
  moreover have "h = \<lceil>sqrt (real (length strip) / (real_of_int rw / real_of_int rh))\<rceil>"
    by (simp add: h_def)
  ultimately show ?thesis using b(2,3) w_def by blast
qed

text \<open>Witness for C2: the strip of 109 pixels at 4:3.\<close>

theorem rect_dimensions_witness:
  "\<exists>w h data strip' g'.
      color_strip_to_rect_image (constant_rng 0) (replicate 109 (0, 0, 0)) (4, 3) False
        = Inr ((w, h, data), strip', g')
    \<and> w = 14 \<and> h = 10
    \<and> w * h \<ge> 109
    \<and> w * h - 109 < 2 * w + h"
  using rect_dimensions[of "replicate 109 (0, 0, 0)" 4 3 "constant_rng 0" False]
  by (simp add: rect_109)

subsection \<open>The caller's list\<close>

lemma rect_1:
  "color_strip_to_rect_image (constant_rng 0) [(1, 2, 3)] (4, 3) False
     = Inr ((2, 1, [(1, 2, 3), (0, 0, 0)]), [(1, 2, 3), (0, 0, 0)], (constant_rng 0))"
proof -
  have hh: "1 = \<lceil>sqrt (real_of_int (int (length [(1::int, 2::int, 3::int)]))
                  / (real_of_int 4 / real_of_int 3))\<rceil>"
    by (rule height_eq[symmetric]) simp_all
  have ww: "2 = \<lceil>real_of_int 1 * (real_of_int 4 / real_of_int 3)\<rceil>"
    by (rule width_eq[symmetric]) simp_all
  show ?thesis
    using color_strip_to_rect_image_eq[where noise = False and g = "constant_rng 0", OF _ _ _ hh ww refl] by simp
qed

text \<open>
  Counterexample for C10 as stated. A strip of one pixel at 4:3 with black padding is
  packed into 2 by 1 pixels; when the packer returns, the caller's list holds two pixels:
  the padding pixel was appended to it.
\<close>

theorem packer_mutates_input_list:
  "color_strip_to_rect_image (constant_rng 0) [(1, 2, 3)] (4, 3) False
     = Inr ((2, 1, [(1, 2, 3), (0, 0, 0)]), [(1, 2, 3), (0, 0, 0)], (constant_rng 0))
   \<and> [(1, 2, 3), (0, 0, 0)] \<noteq> [(1::int, 2::int, 3::int)]"
  by (simp add: rect_1)

lemma packer_padding:
  assumes "color_strip_to_rect_image g strip ratio noise = Inr ((w, h, data), strip', g')"
  shows "\<exists>padding. strip' = strip @ padding
      \<and> int (length padding) = w * h - int (length strip)
      \<and> data = strip'
      \<and> (strip' = strip \<longleftrightarrow> w * h = int (length strip))
      \<and> (\<not> noise \<longrightarrow> padding = replicate (length padding) (0, 0, 0) \<and> g' = g)"
proof -
  obtain rw rh where ratio: "ratio = (rw, rh)" by (cases ratio)
  have ok: "strip \<noteq> []" "0 < rw" "0 < rh"
    using color_strip_to_rect_image_errors[OF assms] ratio by simp_all
  define h0 where "h0 = \<lceil>sqrt (real_of_int (int (length strip)) / (real_of_int rw / real_of_int rh))\<rceil>"
  define w0 where "w0 = \<lceil>real_of_int h0 * (real_of_int rw / real_of_int rh)\<rceil>"
  define needed where "needed = w0 * h0 - int (length strip)"
  define padded where "padded = (if w0 * h0 - int (length strip) > 0
                   then (if noise then noise_pad (nat (w0 * h0 - int (length strip))) g strip
                         else (strip @ replicate (nat (w0 * h0 - int (length strip))) (0, 0, 0), g))
                   else (strip, g))"
  have a: "0 < int (length strip)" using ok(1) by simp
  note b = rect_dims_bounds[OF a ok(2,3) h0_def w0_def]
  have res: "w = w0" "h = h0" "data = take (nat (w0 * h0)) (fst padded)"
      "strip' = fst padded" "g' = snd padded"
    using color_strip_to_rect_image_eq[where noise = noise and g = g, OF ok h0_def w0_def padded_def] assms ratio
    by auto
  have n0: "0 \<le> needed" using b(2) by (simp add: needed_def)
  obtain padding where pad: "fst padded = strip @ padding" "length padding = nat needed"
    and black: "\<not> noise \<longrightarrow> padding = replicate (nat needed) (0, 0, 0) \<and> snd padded = g"
  proof (cases "needed > 0")
    case True
    show ?thesis
    proof (cases noise)
      case True
      obtain ps where "fst (noise_pad (nat needed) g strip) = strip @ ps" "length ps = nat needed"
        using noise_pad_appends by blast
      then show ?thesis using that[of ps] True \<open>needed > 0\<close> by (simp add: padded_def needed_def)
    next
      case False
      then show ?thesis
        using that[of "replicate (nat needed) (0, 0, 0)"] True by (simp add: padded_def needed_def)
    qed
  next
    case False
    then show ?thesis using that[of "[]"] n0 by (simp add: padded_def needed_def)
  qed
  have len: "int (length padding) = w * h - int (length strip)"
    using pad(2) n0 by (simp add: needed_def res)
  have "length (fst padded) = nat (w0 * h0)"
    using pad n0 by (simp add: needed_def nat_diff_distrib' nat_add_distrib)
  then have d: "data = strip'" by (simp add: res)
  have "strip' = strip \<longleftrightarrow> padding = []"
    using pad(1) by (simp add: res)
  also have "\<dots> \<longleftrightarrow> int (length padding) = 0"
    by simp
  also have "\<dots> \<longleftrightarrow> w * h = int (length strip)"
    unfolding len by linarith
  finally have same: "strip' = strip \<longleftrightarrow> w * h = int (length strip)" .
  show ?thesis
    using pad(1) len d same black pad(2) by (intro exI[of _ padding]) (simp add: res)
qed

text \<open>
  Claim C10, amended. When the packer returns, the caller's list is its old content
  followed by the \<open>width * height - area\<close> padding pixels, appended in place; it is
  unchanged exactly when no padding is needed. The returned buffer has the same content
  as the extended list. Without noise the padding is black and the generator is untouched.
\<close>

theorem packer_extends_input_in_place:
  assumes "color_strip_to_rect_image g strip ratio noise = Inr ((w, h, data), strip', g')"
  shows "\<exists>padding. strip' = strip @ padding
      \<and> int (length padding) = w * h - int (length strip)
      \<and> data = strip'
      \<and> (strip' = strip \<longleftrightarrow> w * h = int (length strip))
      \<and> (\<not> noise \<longrightarrow> padding = replicate (length padding) (0, 0, 0) \<and> g' = g)"
  using packer_padding[OF assms] .

text \<open>Witness for C10: the strip of one pixel.\<close>

theorem packer_extends_input_in_place_witness:
  "\<exists>padding. [(1, 2, 3), (0, 0, 0)] = [(1::int, 2::int, 3::int)] @ padding
      \<and> int (length padding) = 2 * 1 - int (length [(1::int, 2::int, 3::int)])
      \<and> padding = replicate (length padding) (0, 0, 0)"
  using packer_extends_input_in_place[OF rect_1] by auto

section \<open>Empty input\<close>

text \<open>
  Counterexample for C1 as stated. For the empty span list the strip builder returns
  the empty strip; it raises nothing.
\<close>

theorem empty_span_list_returns_empty_strip:
  "spans_to_color_strip (constant_rng 0) [] 50 None = Inr ([], (constant_rng 0))"
  by (simp add: spans_to_color_strip_def)

text \<open>
  Claim C1, amended. For the empty span list the strip builder returns the empty strip
  and leaves the generator untouched; it is the rectangle packer that raises, on every
  empty strip, the \<^verbatim>\<open>ValueError\<close> "Color strip is empty", so no image of 0 by 0 pixels is
  produced.
\<close>

theorem empty_input_handling:
  "spans_to_color_strip g [] pps background = Inr ([], g)
   \<and> color_strip_to_rect_image g [] ratio noise = Inl (ValueError ''Color strip is empty'')"
  by (simp add: spans_to_color_strip_def color_strip_to_rect_image_def)

text \<open>Witness for C1.\<close>

theorem empty_input_handling_witness:
  "spans_to_color_strip (constant_rng 7) [] 50 (Some (1, 2, 3)) = Inr ([], (constant_rng 7))
   \<and> color_strip_to_rect_image (constant_rng 7) [] (4, 3) True = Inl (ValueError ''Color strip is empty'')"
  using empty_input_handling[of "constant_rng 7" 50 "Some (1, 2, 3)" "(4, 3)" True] by simp

section \<open>The random generator\<close>

lemma late_span_run:
  "spans_to_color_strip g [late_span] 1 None
     = Inr ([fst (random_pixel g), (222, 186, 8)], snd (random_pixel g))"
proof -
  have "[0..<2] = [0, 1]" by (simp add: upt_rec)
  then show ?thesis
    by (simp add: spans_to_color_strip_def late_span_def Let_def add_color_def color_C_100
        split: prod.splits)
qed

text \<open>
  Counterexample for C9 as stated. Two calls of the strip builder with the same
  arguments (one span from second 1 to second 2, one pixel per second, no background)
  return different strips when the global generator is in different states: the
  function takes no random source from its caller.
\<close>

theorem global_generator_changes_the_strip:
  "spans_to_color_strip (constant_rng 0) [late_span] 1 None
      = Inr ([(0, 0, 0), (222, 186, 8)], (constant_rng 0))
   \<and> spans_to_color_strip (constant_rng 255) [late_span] 1 None
      = Inr ([(255, 255, 255), (222, 186, 8)], (constant_rng 255))"
  by (simp add: late_span_run random_pixel_def randint_0_255_def constant_rng_def)

lemma random_pixel_same:
  assumes "same_draws g1 g2"
  shows "fst (random_pixel g1) = fst (random_pixel g2)"
    and "same_draws (snd (random_pixel g1)) (snd (random_pixel g2))"
  using assms by (simp_all add: random_pixel_def randint_0_255_def same_draws_def)

lemma strip_loop_same:
  assumes "same_draws g1 g2"
  shows "fst (strip_loop sps step background is g1 strip) = fst (strip_loop sps step background is g2 strip)
       \<and> same_draws (snd (strip_loop sps step background is g1 strip))
                     (snd (strip_loop sps step background is g2 strip))"
  using assms
proof (induction "is" arbitrary: g1 g2 strip)
  case Nil
  then show ?case by simp
next
  case (Cons i "is")
  show ?case
  proof (cases "filter (\<lambda>sp. start sp \<le> real i * step \<and> real i * step < end_time sp) sps = []")
    case True
    show ?thesis
    proof (cases background)
      case None
      show ?thesis
        unfolding None strip_loop_Cons_random[OF True]
        using Cons.IH[OF random_pixel_same(2)[OF Cons.prems], of "strip @ [fst (random_pixel g2)]"]
          random_pixel_same(1)[OF Cons.prems]
        by (simp add: None)
    next
      case (Some c)
      show ?thesis
        unfolding Some strip_loop_Cons_background[OF True]
        using Cons.IH[OF Cons.prems] by (simp add: Some)
    qed
  next
    case False
    show ?thesis
      unfolding strip_loop_Cons_active[OF False] using Cons.IH[OF Cons.prems] by simp
  qed
qed

lemma strip_loop_background:
  "fst (strip_loop sps step (Some c) is g1 strip) = fst (strip_loop sps step (Some c) is g2 strip)"
proof (induction "is" arbitrary: strip)
  case Nil
  then show ?case by simp
next
  case (Cons i "is")
  show ?case
  proof (cases "filter (\<lambda>sp. start sp \<le> real i * step \<and> real i * step < end_time sp) sps = []")
    case True
    show ?thesis unfolding strip_loop_Cons_background[OF True] by (rule Cons.IH)
  next
    case False
    show ?thesis unfolding strip_loop_Cons_active[OF False] by (rule Cons.IH)
  qed
qed

lemma noise_pad_same:
  assumes "same_draws g1 g2"
  shows "fst (noise_pad k g1 strip) = fst (noise_pad k g2 strip)"
  using assms
proof (induction k arbitrary: g1 g2 strip)
  case 0
  then show ?case by simp
next
  case (Suc k)
  have "noise_pad (Suc k) g strip = noise_pad k (snd (random_pixel g)) (strip @ [fst (random_pixel g)])" for g
    by (simp split: prod.splits)
  then show ?case
    using Suc.IH[OF random_pixel_same(2)[OF Suc.prems]] random_pixel_same(1)[OF Suc.prems] by simp
qed

lemma strip_same:
  assumes "same_draws g1 g2"
  shows "map_sum id fst (spans_to_color_strip g1 sps pps background)
       = map_sum id fst (spans_to_color_strip g2 sps pps background)"
  using strip_loop_same[OF assms]
  by (simp add: spans_to_color_strip_def Let_def split: list.splits)

lemma strip_background:
  "map_sum id fst (spans_to_color_strip g1 sps pps (Some c))
     = map_sum id fst (spans_to_color_strip g2 sps pps (Some c))"
  using strip_loop_background
  by (simp add: spans_to_color_strip_def Let_def split: list.splits)

lemma rect_errors_same:
  assumes "strip = [] \<or> rw \<le> 0 \<or> rh \<le> 0"
  shows "color_strip_to_rect_image g1 strip (rw, rh) noise = color_strip_to_rect_image g2 strip (rw, rh) noise"
  using assms by (auto simp: color_strip_to_rect_image_def)

lemma rect_same_padding:
  assumes "\<And>k. noise \<Longrightarrow> fst (noise_pad k g1 strip) = fst (noise_pad k g2 strip)"
  shows "map_sum id (\<lambda>(res, strip', g'). (res, strip')) (color_strip_to_rect_image g1 strip ratio noise)
       = map_sum id (\<lambda>(res, strip', g'). (res, strip')) (color_strip_to_rect_image g2 strip ratio noise)"
proof -
  obtain rw rh where r: "ratio = (rw, rh)" by (cases ratio)
  show ?thesis
  proof (cases "strip = [] \<or> rw \<le> 0 \<or> rh \<le> 0")
    case True
    show ?thesis
      unfolding r by (simp only: rect_errors_same[OF True, where ?g1.0 = g1 and ?g2.0 = g2 and noise = noise])
  next
    case False
    then have ok: "strip \<noteq> []" "0 < rw" "0 < rh" by auto
    note e1 = color_strip_to_rect_image_eq[where noise = noise and g = g1, OF ok refl refl refl]
    note e2 = color_strip_to_rect_image_eq[where noise = noise and g = g2, OF ok refl refl refl]
    show ?thesis
      unfolding r e1 e2 using assms by (simp add: case_prod_beta)
  qed
qed

lemma rect_same:
  assumes "same_draws g1 g2"
  shows "map_sum id (\<lambda>(res, strip', g'). (res, strip')) (color_strip_to_rect_image g1 strip ratio noise)
       = map_sum id (\<lambda>(res, strip', g'). (res, strip')) (color_strip_to_rect_image g2 strip ratio noise)"
  using noise_pad_same[OF assms] by (intro rect_same_padding) simp

lemma rect_black:
  "map_sum id (\<lambda>(res, strip', g'). (res, strip')) (color_strip_to_rect_image g1 strip ratio False)
     = map_sum id (\<lambda>(res, strip', g'). (res, strip')) (color_strip_to_rect_image g2 strip ratio False)"
  by (intro rect_same_padding) simp

text \<open>
  Claim C9, amended. The filler and padding pixels are drawn from the module-global
  generator. Two runs with identical arguments return the same strip, and the same image
  and list, whenever the generator hands out the same numbers in both runs; with a
  configured background color (strip builder) and without noise (packer) the outputs do
  not depend on the generator at all.
\<close>

theorem outputs_depend_on_generator_draws_only:
  "(same_draws g1 g2 \<longrightarrow>
      map_sum id fst (spans_to_color_strip g1 sps pps background)
        = map_sum id fst (spans_to_color_strip g2 sps pps background)
    \<and> map_sum id (\<lambda>(res, strip', g'). (res, strip')) (color_strip_to_rect_image g1 strip ratio noise)
        = map_sum id (\<lambda>(res, strip', g'). (res, strip')) (color_strip_to_rect_image g2 strip ratio noise))
   \<and> map_sum id fst (spans_to_color_strip g1 sps pps (Some c))
        = map_sum id fst (spans_to_color_strip g2 sps pps (Some c))
   \<and> map_sum id (\<lambda>(res, strip', g'). (res, strip')) (color_strip_to_rect_image g1 strip ratio False)
        = map_sum id (\<lambda>(res, strip', g'). (res, strip')) (color_strip_to_rect_image g2 strip ratio False)"
  using strip_same rect_same strip_background rect_black by blast

text \<open>Witness for C9: two generator states that hand out the same numbers.\<close>

theorem outputs_depend_on_generator_draws_only_witness:
  "same_draws (constant_rng 3) (constant_rng 259)
   \<and> map_sum id fst (spans_to_color_strip (constant_rng 3) [late_span] 1 None)
       = map_sum id fst (spans_to_color_strip (constant_rng 259) [late_span] 1 None)
   \<and> map_sum id fst (spans_to_color_strip (constant_rng 3) [late_span] 1 None)
       = Inr [(3, 3, 3), (222, 186, 8)]"
proof -
  have s: "same_draws (constant_rng 3) (constant_rng 259)"
    by (simp add: same_draws_def constant_rng_def)
  from outputs_depend_on_generator_draws_only[of "constant_rng 3" "constant_rng 259" "[late_span]" 1 None] s
  have "map_sum id fst (spans_to_color_strip (constant_rng 3) [late_span] 1 None)
       = map_sum id fst (spans_to_color_strip (constant_rng 259) [late_span] 1 None)"
    by blast
  then show ?thesis
    using s by (simp add: late_span_run random_pixel_def randint_0_255_def constant_rng_def)
qed

section \<open>The PNG writer\<close>

subsection \<open>Numbers and chunks\<close>

lemma byte_mod: "(word_of_int (x mod 256) :: byte) = word_of_int x"
  by (simp add: word_of_int_eq_iff take_bit_eq_mod)

lemma pack_u32_spec:
  assumes "0 \<le> n" "n < 2 ^ 32"
  shows "pack_u32 n = Inr (spec_be32 n)"
  using assms by (simp add: pack_u32_def spec_be32_def byte_mod)

lemma chunk_spec:
  assumes "length payload < 2 ^ 32"
  shows "chunk z tag payload = Inr (spec_chunk z tag payload)"
proof -
  have l: "pack_u32 (int (length payload)) = Inr (spec_be32 (int (length payload)))"
    using assms by (intro pack_u32_spec) simp_all
  have c: "pack_u32 (take_bit 32 (crc32 z (tag @ payload)))
             = Inr (spec_be32 (crc32 z (tag @ payload) mod 2 ^ 32))"
    by (simp add: take_bit_eq_mod pack_u32_spec)
  show ?thesis
    by (simp add: chunk_def Let_def l c spec_chunk_def)
qed

subsection \<open>Scanlines\<close>

lemma pixel_bytes_rgb:
  assumes "rgb_pixel p"
  shows "pixel_bytes p = Inr ((\<lambda>(r, g, b). [word_of_int r, word_of_int g, word_of_int b]) p)"
  using assms by (auto simp: rgb_pixel_def pixel_bytes_def byte_of_int_def split: prod.splits)

lemma row_loop_spec:
  assumes "\<forall>x \<in> set xs. row_start + x < length data" "\<forall>p \<in> set data. rgb_pixel p"
  shows "row_loop data row_start xs raw =
     Inr (raw @ concat (map (\<lambda>x. (\<lambda>(r, g, b). [word_of_int r, word_of_int g, word_of_int b])
                               (data ! (row_start + x))) xs))"
  using assms(1)
proof (induction xs arbitrary: raw)
  case Nil
  then show ?case by simp
next
  case (Cons x xs)
  have "rgb_pixel (data ! (row_start + x))"
    using Cons.prems assms(2) by simp
  then show ?case
    using Cons by (simp add: pixel_bytes_rgb)
qed

lemma row_slice:
  assumes "row_start + width \<le> length data"
  shows "map (\<lambda>x. data ! (row_start + x)) [0..<width] = take width (drop row_start data)"
  using assms by (intro nth_equalityI) simp_all

lemma row_loop_scanline:
  assumes "y * width + width \<le> length data" "\<forall>p \<in> set data. rgb_pixel p"
  shows "row_loop data (y * width) [0..<width] (raw @ [0]) = Inr (raw @ spec_scanline width data y)"
proof -
  have "\<forall>x \<in> set [0..<width]. y * width + x < length data"
    using assms(1) by auto
  from row_loop_spec[OF this assms(2)]
  have "row_loop data (y * width) [0..<width] (raw @ [0]) =
     Inr ((raw @ [0]) @ concat (map (\<lambda>(r, g, b). [word_of_int r, word_of_int g, word_of_int b])
            (map (\<lambda>x. data ! (y * width + x)) [0..<width])))"
    by (simp add: comp_def)
  then show ?thesis
    unfolding row_slice[OF assms(1)] by (simp add: spec_scanline_def)
qed

lemma raw_loop_spec:
  assumes "\<forall>y \<in> set ys. y * width + width \<le> length data" "\<forall>p \<in> set data. rgb_pixel p"
  shows "raw_loop data width ys raw = Inr (raw @ concat (map (spec_scanline width data) ys))"
  using assms(1)
proof (induction ys arbitrary: raw)
  case Nil
  then show ?case by simp
next
  case (Cons y ys)
  then show ?case
    using row_loop_scanline[of y width data raw] assms(2) by simp
qed

subsection \<open>The file\<close>

text \<open>
  Claim C8. Given a width and a height that fit the 4-byte fields of the header, a
  buffer of exactly \<open>width * height\<close> RGB triples and a compressed payload shorter than
  \<open>2 ^ 32\<close> bytes, the writer emits exactly: the 8-byte signature; the header chunk with
  width, height, bit depth 8, color type 2 (truecolor) and three zero bytes; one data
  chunk whose payload is the level-9 compression of the concatenated scanlines, each a
  filter byte 0 followed by 3 bytes per pixel; and the empty end chunk. Every chunk is
  the 4-byte big-endian payload length, the 4-byte ASCII tag, the payload and the 4-byte
  CRC-32 over tag and payload.
\<close>

theorem write_png_layout:
  assumes "0 \<le> width" "width < 2 ^ 32" "0 \<le> height" "height < 2 ^ 32"
    and "int (length data) = width * height"
    and "\<forall>p \<in> set data. rgb_pixel p"
    and "length (compress z (concat (map (spec_scanline (nat width) data) [0..<nat height])) 9) < 2 ^ 32"
  shows "write_png z width height data =
     Inr (PNG_SIGNATURE
          @ spec_chunk z IHDR (spec_be32 width @ spec_be32 height @ [8, 2, 0, 0, 0])
          @ spec_chunk z IDAT
              (compress z (concat (map (spec_scanline (nat width) data) [0..<nat height])) 9)
          @ spec_chunk z IEND [])
     \<and> length PNG_SIGNATURE = 8
     \<and> IHDR = ascii ''IHDR'' \<and> IDAT = ascii ''IDAT'' \<and> IEND = ascii ''IEND''"
proof -
  have len: "length data = nat width * nat height"
    using assms(1,3,5) by (metis nat_int nat_mult_distrib)
  have rows: "\<forall>y \<in> set [0..<nat height]. y * nat width + nat width \<le> length data"
  proof
    fix y assume "y \<in> set [0..<nat height]"
    then have "Suc y \<le> nat height" by simp
    then have "Suc y * nat width \<le> nat height * nat width" by (rule mult_le_mono1)
    then show "y * nat width + nat width \<le> length data" by (simp add: len mult.commute)
  qed
  have raw: "raw_loop data (nat width) [0..<nat height] []
      = Inr (concat (map (spec_scanline (nat width) data) [0..<nat height]))"
    using raw_loop_spec[OF rows assms(6), of "[]"] by simp
  have hdr: "pack_header width height = Inr (spec_be32 width @ spec_be32 height @ [8, 2, 0, 0, 0])"
    using assms(1-4) by (simp add: pack_header_def pack_u32_spec)
  have c1: "chunk z IHDR (spec_be32 width @ spec_be32 height @ [8, 2, 0, 0, 0])
      = Inr (spec_chunk z IHDR (spec_be32 width @ spec_be32 height @ [8, 2, 0, 0, 0]))"
    by (rule chunk_spec) (simp add: spec_be32_def)
  have c2: "chunk z IDAT (compress z (concat (map (spec_scanline (nat width) data) [0..<nat height])) 9)
      = Inr (spec_chunk z IDAT (compress z (concat (map (spec_scanline (nat width) data) [0..<nat height])) 9))"
    using assms(7) by (rule chunk_spec)
  have c3: "chunk z IEND [] = Inr (spec_chunk z IEND [])"
    by (rule chunk_spec) simp
  have png: "write_png z width height data =
     Inr (PNG_SIGNATURE
          @ spec_chunk z IHDR (spec_be32 width @ spec_be32 height @ [8, 2, 0, 0, 0])
          @ spec_chunk z IDAT
              (compress z (concat (map (spec_scanline (nat width) data) [0..<nat height])) 9)
          @ spec_chunk z IEND [])"
    by (simp only: write_png_def raw hdr c1 c2 c3 sum.case)
  have tags: "length PNG_SIGNATURE = 8" "IHDR = ascii ''IHDR''" "IDAT = ascii ''IDAT''"
      "IEND = ascii ''IEND''"
    by (simp_all add: PNG_SIGNATURE_def IHDR_def IDAT_def IEND_def ascii_def)
  from png tags show ?thesis by simp
qed

text \<open>Witness for C8: an image of one pixel, written with the stand-in for zlib; the
  61 bytes of the file are listed.\<close>

theorem write_png_layout_witness:
  "write_png toy_zlib 1 1 [(255, 0, 128)] =
     Inr [0x89, 0x50, 0x4E, 0x47, 0x0D, 0x0A, 0x1A, 0x0A,
          0, 0, 0, 13, 0x49, 0x48, 0x44, 0x52,
          0, 0, 0, 1, 0, 0, 0, 1, 8, 2, 0, 0, 0,
          0x12, 0x34, 0x56, 0x78,
          0, 0, 0, 4, 0x49, 0x44, 0x41, 0x54,
          0, 255, 0, 128,
          0x12, 0x34, 0x56, 0x78,
          0, 0, 0, 0, 0x49, 0x45, 0x4E, 0x44,
          0x12, 0x34, 0x56, 0x78]"
  using write_png_layout[of 1 1 "[(255, 0, 128)]" toy_zlib]
  by (simp add: toy_zlib_def rgb_pixel_def spec_scanline_def spec_chunk_def spec_be32_def
      PNG_SIGNATURE_def IHDR_def IDAT_def IEND_def)

section \<open>Further properties\<close>

subsection \<open>The color mapper\<close>

lemma scale_channel_byte:
  assumes "0 \<le> c" "0 \<le> s"
  shows "0 \<le> scale_channel s c" "scale_channel s c < 256"
  using assms by (simp_all add: scale_channel_def py_int_of_float_def)

lemma table_colors_nonneg:
  assumes "map_of SHARP_COLORS name = Some (r, g, b) \<or> map_of NATURAL_COLORS name = Some (r, g, b)"
  shows "0 \<le> r \<and> 0 \<le> g \<and> 0 \<le> b"
proof -
  have "(name, (r, g, b)) \<in> set SHARP_COLORS \<or> (name, (r, g, b)) \<in> set NATURAL_COLORS"
    using assms by (auto dest: map_of_SomeD)
  then show ?thesis
    by (auto simp: SHARP_COLORS_def NATURAL_COLORS_def)
qed

text \<open>
  Extra property X1. The color mapper is total and returns a valid RGB triple for every
  note number and velocity: each channel lies within 0 to 255.
\<close>

theorem color_for_note_is_rgb: "rgb_pixel (color_for_note nn vel)"
proof -
  define name where "name = NOTE_NAMES ! nat (nn mod 12)"
  define base where "base = (case map_of SHARP_COLORS name of
                   Some c \<Rightarrow> c
                 | None \<Rightarrow> (case map_of NATURAL_COLORS name of
                              Some c \<Rightarrow> c
                            | None \<Rightarrow> (80, 80, 80)))"
  define s :: real where "s = 0.4 + 0.6 * (real_of_int (max 0 (min 127 vel)) / 127)"
  obtain r g b where base: "base = (r, g, b)" by (cases base) auto
  have nonneg: "0 \<le> r \<and> 0 \<le> g \<and> 0 \<le> b"
  proof (cases "map_of SHARP_COLORS name")
    case None
    show ?thesis
    proof (cases "map_of NATURAL_COLORS name")
      case N2: None
      then show ?thesis using None base by (simp add: base_def)
    next
      case (Some c)
      then show ?thesis using None base table_colors_nonneg[of name r g b] by (simp add: base_def)
    qed
  next
    case (Some c)
    then show ?thesis using base table_colors_nonneg[of name r g b] by (simp add: base_def)
  qed
  have s0: "0 \<le> s" by (simp add: s_def)
  have "color_for_note nn vel = (scale_channel s r, scale_channel s g, scale_channel s b)"
    using base by (simp add: color_for_note_def Let_def name_def[symmetric] base_def[symmetric] s_def)
  then show ?thesis
    using nonneg s0 by (simp add: rgb_pixel_def scale_channel_byte)
qed

text \<open>Witness for X1: C with velocity 100.\<close>

theorem color_for_note_is_rgb_witness:
  "rgb_pixel (color_for_note 60 100) \<and> color_for_note 60 100 = (222, 186, 8)"
  using color_for_note_is_rgb[of 60 100] by (simp add: color_C_100)

subsection \<open>The canvas\<close>

text \<open>
  Extra property X2. Whenever the packer returns, both dimensions are positive, the
  buffer holds exactly \<open>width * height\<close> pixels, and it starts with the pixels of the
  strip in their order.
\<close>

theorem canvas_has_width_times_height_pixels:
  assumes "color_strip_to_rect_image g strip ratio noise = Inr ((w, h, data), strip', g')"
  shows "int (length data) = w * h \<and> take (length strip) data = strip \<and> 0 < w \<and> 0 < h"
proof -
  obtain padding where p: "strip' = strip @ padding"
    "int (length padding) = w * h - int (length strip)" "data = strip'"
    using packer_padding[OF assms] by blast
  obtain rw rh where ratio: "ratio = (rw, rh)" by (cases ratio)
  have ok: "strip \<noteq> []" "0 < rw" "0 < rh"
    using color_strip_to_rect_image_errors[OF assms] ratio by simp_all
  have a: "0 < int (length strip)" using ok(1) by simp
  have wh: "h = \<lceil>sqrt (real_of_int (int (length strip)) / (real_of_int rw / real_of_int rh))\<rceil>"
     "w = \<lceil>real_of_int h * (real_of_int rw / real_of_int rh)\<rceil>"
    using color_strip_to_rect_image_eq[where noise = noise and g = g, OF ok refl refl refl] assms ratio
    by auto
  note b = rect_dims_bounds[OF a ok(2,3) wh]
  have "0 < w * h" using b(2) a by linarith
  then have "0 < w" using b(1) by (simp add: zero_less_mult_iff)
  then show ?thesis using p b(1) by simp
qed

text \<open>Witness for X2: the strip of one pixel at 4:3.\<close>

theorem canvas_has_width_times_height_pixels_witness:
  "int (length [(1::int, 2::int, 3::int), (0, 0, 0)]) = 2 * 1
   \<and> take (length [(1::int, 2::int, 3::int)]) [(1, 2, 3), (0, 0, 0)] = [(1, 2, 3)]
   \<and> (0::int) < 2 \<and> (0::int) < 1"
  using canvas_has_width_times_height_pixels[OF rect_1] by simp

end
